theory Spec2Isabelle
  imports Complex_Main "HOL-Library.Word" "HOL-Library.Char_ord" "HOL-Library.List_Lexorder"
    "HOL-Library.AList"
begin

section \<open>Text: the parts of fmt, strconv, strings and unicode/utf8 the program uses\<close>

text \<open>
  A Go string is a sequence of bytes, here a \<^typ>\<open>string\<close>. Go's \<^verbatim>\<open>int\<close> is the
  64-bit two's complement integer of the platforms the tool is built for: \<open>+\<close> wraps,
  comparisons and \<^verbatim>\<open>%d\<close> read it signed. Column widths are the constants 35, 20 and
  10 of the callers and are natural numbers here.
\<close>

type_synonym int64 = "64 word"

definition nl :: string where
  "nl = [CHR 0x0A]"

fun showNat :: "nat \<Rightarrow> string" where
  "showNat n =
     (if n < 10 then [char_of (48 + n)]
      else showNat (n div 10) @ [char_of (48 + n mod 10)])"

declare showNat.simps [simp del]

text \<open>\<^verbatim>\<open>%d\<close> without a width: the decimal digits, a minus sign first when negative.\<close>

definition showInt :: "int \<Rightarrow> string" where
  "showInt i = (if i < 0 then CHR ''-'' # showNat (nat (- i)) else showNat (nat i))"

text \<open>
  \<^verbatim>\<open>utf8.RuneCountInString\<close>, which fmt uses to measure a string before padding it.
  \<open>runeSize\<close> is the number of bytes the decoder takes for the rune at the head of
  a non-empty byte sequence: one for an ASCII byte and for every byte that does not
  start a well-formed encoding.
\<close>

definition acceptRange :: "nat \<Rightarrow> nat \<times> nat" where
  "acceptRange c =
     (if c = 0xE0 then (0xA0, 0xBF)
      else if c = 0xED then (0x80, 0x9F)
      else if c = 0xF0 then (0x90, 0xBF)
      else if c = 0xF4 then (0x80, 0x8F)
      else (0x80, 0xBF))"

definition leadSize :: "nat \<Rightarrow> nat" where
  "leadSize c =
     (if c < 0x80 then 1
      else if c < 0xC2 then 0
      else if c < 0xE0 then 2
      else if c < 0xF0 then 3
      else if c < 0xF5 then 4
      else 0)"

definition continuation :: "nat \<Rightarrow> bool" where
  "continuation c \<longleftrightarrow> 0x80 \<le> c \<and> c \<le> 0xBF"

definition runeSize :: "nat list \<Rightarrow> nat" where
  "runeSize bs =
     (let c = hd bs; size = leadSize c in
      if c < 0x80 then 1
      else if size = 0 then 1
      else if length bs < size then 1
      else if bs ! 1 < fst (acceptRange c) \<or> snd (acceptRange c) < bs ! 1 then 1
      else if size = 2 then 2
      else if \<not> continuation (bs ! 2) then 1
      else if size = 3 then 3
      else if \<not> continuation (bs ! 3) then 1
      else 4)"

lemma runeSize_pos: "0 < runeSize bs"
  by (simp add: runeSize_def Let_def)

function runeCountBytes :: "nat list \<Rightarrow> nat" where
  "runeCountBytes bs = (if bs = [] then 0 else Suc (runeCountBytes (drop (runeSize bs) bs)))"
  by pat_completeness auto
termination
  by (relation "measure length") (use runeSize_pos in auto)

declare runeCountBytes.simps [simp del]

definition RuneCountInString :: "string \<Rightarrow> nat" where
  "RuneCountInString s = runeCountBytes (map of_char s)"

text \<open>
  The three verbs with a \<^verbatim>\<open>*\<close> width: \<^verbatim>\<open>%*s\<close> and \<^verbatim>\<open>%*d\<close> put the padding before
  the text (right-aligned), \<^verbatim>\<open>%-*s\<close> after it. Text wider than the column is written
  whole.
\<close>

definition spaces :: "nat \<Rightarrow> string" where
  "spaces n = replicate n (CHR '' '')"

definition fmtS :: "nat \<Rightarrow> string \<Rightarrow> string" where
  "fmtS w s = spaces (w - RuneCountInString s) @ s"

definition fmtSleft :: "nat \<Rightarrow> string \<Rightarrow> string" where
  "fmtSleft w s = s @ spaces (w - RuneCountInString s)"

definition fmtD :: "nat \<Rightarrow> int64 \<Rightarrow> string" where
  "fmtD w n = fmtS w (showInt (sint n))"

definition Repeat :: "string \<Rightarrow> nat \<Rightarrow> string" where
  "Repeat s n = concat (replicate n s)"

section \<open>The weekly table (cmd/ashby.go, second file; and its older copy)\<close>

record weeklyTable =
  labelColWidth :: nat
  weekColWidth :: nat
  weeks :: "string list"

definition newWeeklyTable :: "nat \<Rightarrow> nat \<Rightarrow> string list \<Rightarrow> weeklyTable" where
  "newWeeklyTable lw ww ws = \<lparr>labelColWidth = lw, weekColWidth = ww, weeks = ws\<rparr>"

text \<open>
  A method runs on what it can reach: the table behind its receiver \<open>t\<close> and standard
  output; a row method also reaches the map it is handed (a Go map is a reference) and
  has the local \<open>total\<close>. Every method returns the whole of it, so that what it leaves
  alone can be stated.
\<close>

record world =
  table :: weeklyTable
  stdout :: string

record rowWorld = world +
  weekValues :: "string \<rightharpoonup> int64"
  rowTotal :: int64

text \<open>Reading a Go map at a key it does not hold gives the zero value and adds nothing.\<close>

definition lookup :: "(string \<rightharpoonup> int64) \<Rightarrow> string \<Rightarrow> int64" where
  "lookup m k = (case m k of None \<Rightarrow> 0 | Some v \<Rightarrow> v)"

definition Print :: "string \<Rightarrow> ('a world_scheme) \<Rightarrow> ('a world_scheme)" where
  "Print s w = w\<lparr>stdout := stdout w @ s\<rparr>"

text \<open>
  printHeader calls formatWeekEnd and is defined after the week calendar, below.
\<close>

subsection \<open>The table with a current-week column (cmd/ashby.go)\<close>

definition printRow_step :: "string \<Rightarrow> rowWorld \<Rightarrow> rowWorld" where
  "printRow_step week s =
     (let count = lookup (weekValues s) week;
          s = (if count = 0 then Print (fmtS (weekColWidth (table s)) ''-'') s
               else Print (fmtD (weekColWidth (table s)) count) s)
      in s\<lparr>rowTotal := rowTotal s + count\<rparr>)"

definition printRow :: "string \<Rightarrow> string \<Rightarrow> rowWorld \<Rightarrow> rowWorld" where
  "printRow label currentWeek s0 =
     (let s = Print (fmtSleft (labelColWidth (table s0)) label) s0;
          s = s\<lparr>rowTotal := 0\<rparr>;
          s = fold printRow_step (weeks (table s)) s;
          s = (if currentWeek \<noteq> '''' then
                 (let count = lookup (weekValues s) currentWeek in
                  if count = 0 then Print (fmtS (weekColWidth (table s)) ''-'') s
                  else Print (fmtD (weekColWidth (table s)) count) s)
               else s)
      in Print (fmtD (weekColWidth (table s)) (rowTotal s) @ nl) s)"

text \<open>printRowWithSlice: the counts come as a slice, the current count as a number,
  with a negative number for no current column.\<close>

definition printRowWithSlice_step :: "int64 \<Rightarrow> rowWorld \<Rightarrow> rowWorld" where
  "printRowWithSlice_step count s =
     (let s = (if count = 0 then Print (fmtS (weekColWidth (table s)) ''-'') s
               else Print (fmtD (weekColWidth (table s)) count) s)
      in s\<lparr>rowTotal := rowTotal s + count\<rparr>)"

definition printRowWithSlice :: "string \<Rightarrow> int64 list \<Rightarrow> int64 \<Rightarrow> rowWorld \<Rightarrow> rowWorld" where
  "printRowWithSlice label counts currentCount s0 =
     (let s = Print (fmtSleft (labelColWidth (table s0)) label) s0;
          s = s\<lparr>rowTotal := 0\<rparr>;
          s = fold printRowWithSlice_step counts s;
          s = (if 0 \<le>s currentCount then
                 (if currentCount = 0 then Print (fmtS (weekColWidth (table s)) ''-'') s
                  else Print (fmtD (weekColWidth (table s)) currentCount) s)
               else s)
      in Print (fmtD (weekColWidth (table s)) (rowTotal s) @ nl) s)"

text \<open>printTotalsRow: the same loop; the grand total is printed and not returned.\<close>

definition printTotalsRow_step :: "string \<Rightarrow> rowWorld \<Rightarrow> rowWorld" where
  "printTotalsRow_step week s =
     (let total = lookup (weekValues s) week;
          s = (if total = 0 then Print (fmtS (weekColWidth (table s)) ''-'') s
               else Print (fmtD (weekColWidth (table s)) total) s)
      in s\<lparr>rowTotal := rowTotal s + total\<rparr>)"

definition printTotalsRow :: "string \<Rightarrow> string \<Rightarrow> rowWorld \<Rightarrow> rowWorld" where
  "printTotalsRow label currentWeek s0 =
     (let s = Print (fmtSleft (labelColWidth (table s0)) label) s0;
          s = s\<lparr>rowTotal := 0\<rparr>;
          s = fold printTotalsRow_step (weeks (table s)) s;
          s = (if currentWeek \<noteq> '''' then
                 (let total = lookup (weekValues s) currentWeek in
                  if total = 0 then Print (fmtS (weekColWidth (table s)) ''-'') s
                  else Print (fmtD (weekColWidth (table s)) total) s)
               else s)
      in Print (fmtD (weekColWidth (table s)) (rowTotal s) @ nl) s)"

definition printSeparator :: "string \<Rightarrow> 'a world_scheme \<Rightarrow> 'a world_scheme" where
  "printSeparator currentWeek s =
     (let columns = length (weeks (table s)) + 1;
          columns = (if currentWeek \<noteq> '''' then columns + 1 else columns);
          totalWidth = labelColWidth (table s) + weekColWidth (table s) * columns
      in Print (Repeat ''-'' totalWidth @ nl) s)"

subsection \<open>The older table, without the current-week column (src/unnamed/part_001)\<close>

definition printRow_part001 :: "string \<Rightarrow> rowWorld \<Rightarrow> rowWorld" where
  "printRow_part001 label s0 =
     (let s = Print (fmtSleft (labelColWidth (table s0)) label) s0;
          s = s\<lparr>rowTotal := 0\<rparr>;
          s = fold printRow_step (weeks (table s)) s
      in Print (fmtD (weekColWidth (table s)) (rowTotal s) @ nl) s)"

definition printRowWithSlice_part001 :: "string \<Rightarrow> int64 list \<Rightarrow> rowWorld \<Rightarrow> rowWorld" where
  "printRowWithSlice_part001 label counts s0 =
     (let s = Print (fmtSleft (labelColWidth (table s0)) label) s0;
          s = s\<lparr>rowTotal := 0\<rparr>;
          s = fold printRowWithSlice_step counts s
      in Print (fmtD (weekColWidth (table s)) (rowTotal s) @ nl) s)"

definition printTotalsRow_part001 :: "string \<Rightarrow> rowWorld \<Rightarrow> rowWorld" where
  "printTotalsRow_part001 label s0 =
     (let s = Print (fmtSleft (labelColWidth (table s0)) label) s0;
          s = s\<lparr>rowTotal := 0\<rparr>;
          s = fold printTotalsRow_step (weeks (table s)) s
      in Print (fmtD (weekColWidth (table s)) (rowTotal s) @ nl) s)"

definition printSeparator_part001 :: "'a world_scheme \<Rightarrow> 'a world_scheme" where
  "printSeparator_part001 s =
     (let totalWidth = labelColWidth (table s) + weekColWidth (table s) * (length (weeks (table s)) + 1)
      in Print (Repeat ''-'' totalWidth @ nl) s)"

text \<open>
  What a count is to look like in its column, in the words of the specification: the
  glyph \<open>-\<close> for zero and the decimal value otherwise, right-aligned, which is preceded
  by the spaces the column has left.
\<close>

definition countCell :: "nat \<Rightarrow> int64 \<Rightarrow> string" where
  "countCell w count =
     (if count = 0 then spaces (w - 1) @ ''-''
      else spaces (w - length (showInt (sint count))) @ showInt (sint count))"

definition ascii :: "string \<Rightarrow> bool" where
  "ascii s \<longleftrightarrow> list_all (\<lambda>c. (of_char c :: nat) < 128) s"

section \<open>Time: the parts of package time the program uses\<close>

text \<open>
  A \<^verbatim>\<open>time.Time\<close> is modelled by its instant, the seconds from 1970-01-01 00:00:00 UTC.
  The fraction of a second is left out: no function here reads it. The location is left
  out as well: every function of the program converts to UTC before it reads a
  calendar field, and \<^verbatim>\<open>time.Parse\<close> without a zone gives UTC. Go's days have 86400
  seconds.
\<close>

type_synonym Time = int

text \<open>
  The proleptic Gregorian calendar, on the days from 1970-01-01. The year is counted from
  March, so that the leap day is its last day; 719468 days lie between 0000-03-01 and
  1970-01-01, 146097 days in 400 years, 36524 in a century that ends without a leap day,
  1461 in four years.
\<close>

definition daysFromCivil :: "int \<Rightarrow> int \<Rightarrow> int \<Rightarrow> int" where
  "daysFromCivil y m d =
     (let y' = (if m \<le> 2 then y - 1 else y);
          era = y' div 400;
          yoe = y' mod 400;
          mp = (if 2 < m then m - 3 else m + 9);
          doy = (153 * mp + 2) div 5 + d - 1;
          doe = yoe * 365 + yoe div 4 - yoe div 100 + doy
      in era * 146097 + doe - 719468)"

definition civilFromDays :: "int \<Rightarrow> int \<times> int \<times> int" where
  "civilFromDays z =
     (let z' = z + 719468;
          era = z' div 146097;
          doe = z' mod 146097;
          c = min 3 (doe div 36524);
          doc = doe - 36524 * c;
          q = doc div 1461;
          doq = doc mod 1461;
          a = min 3 (doq div 365);
          doy = doq - 365 * a;
          yoe = 100 * c + 4 * q + a;
          mp = (5 * doy + 2) div 153;
          d = doy - (153 * mp + 2) div 5 + 1;
          m = (if mp < 10 then mp + 3 else mp - 9)
      in (yoe + era * 400 + (if m \<le> 2 then 1 else 0), m, d))"

text \<open>
  \<^verbatim>\<open>time.Date\<close> in UTC. A month outside 1..12 and a day outside the month are carried
  over, which is how \<^verbatim>\<open>AddDate\<close> moves a date.
\<close>

definition Date :: "int \<Rightarrow> int \<Rightarrow> int \<Rightarrow> int \<Rightarrow> int \<Rightarrow> int \<Rightarrow> Time" where
  "Date year month day hour minute sec =
     (let m = month - 1;
          year = year + m div 12;
          month = m mod 12 + 1
      in daysFromCivil year month day * 86400 + hour * 3600 + minute * 60 + sec)"

definition dateOf :: "Time \<Rightarrow> int \<times> int \<times> int" where
  "dateOf t = civilFromDays (t div 86400)"

definition clockOf :: "Time \<Rightarrow> int \<times> int \<times> int" where
  "clockOf t = (let s = t mod 86400 in (s div 3600, s mod 3600 div 60, s mod 60))"

definition AddDate :: "Time \<Rightarrow> int \<Rightarrow> int \<Rightarrow> int \<Rightarrow> Time" where
  "AddDate t years months days =
     (case (dateOf t, clockOf t) of
        ((year, month, day), (hour, minute, sec)) \<Rightarrow>
          Date (year + years) (month + months) (day + days) hour minute sec)"

text \<open>\<^verbatim>\<open>t.Weekday()\<close>: Sunday is 0, Saturday 6; 1970-01-01 was a Thursday.\<close>

definition Weekday :: "Time \<Rightarrow> int" where
  "Weekday t = (t div 86400 + 4) mod 7"

text \<open>The zero \<^verbatim>\<open>time.Time\<close>, which \<^verbatim>\<open>time.Parse\<close> returns beside an error: 0001-01-01 00:00:00 UTC.\<close>

definition zeroTime :: Time where
  "zeroTime = Date 1 1 1 0 0 0"

definition isLeap :: "int \<Rightarrow> bool" where
  "isLeap year \<longleftrightarrow> year mod 4 = 0 \<and> (year mod 100 \<noteq> 0 \<or> year mod 400 = 0)"

definition daysIn :: "int \<Rightarrow> int \<Rightarrow> int" where
  "daysIn m year =
     (if m = 2 \<and> isLeap year then 29
      else [31, 28, 31, 30, 31, 30, 31, 31, 30, 31, 30, 31] ! nat (m - 1))"

subsection \<open>The layouts\<close>

text \<open>
  \<^verbatim>\<open>appendInt\<close> of package time: a minus sign for a negative number, then the digits,
  with zeros in front up to the width. A year above 9999 takes five digits or more.
\<close>

definition appendInt :: "int \<Rightarrow> nat \<Rightarrow> string" where
  "appendInt x width =
     (let ds = showNat (nat \<bar>x\<bar>)
      in (if x < 0 then ''-'' else '''') @ replicate (width - length ds) (CHR ''0'') @ ds)"

definition shortMonthNames :: "string list" where
  "shortMonthNames = [''Jan'', ''Feb'', ''Mar'', ''Apr'', ''May'', ''Jun'',
                      ''Jul'', ''Aug'', ''Sep'', ''Oct'', ''Nov'', ''Dec'']"

text \<open>\<^verbatim>\<open>t.Format("2006-01-02")\<close>, \<^verbatim>\<open>t.Format("Jan 02")\<close> and \<^verbatim>\<open>t.Format("Jan")\<close>.\<close>

definition Format_2006_01_02 :: "Time \<Rightarrow> string" where
  "Format_2006_01_02 t =
     (case dateOf t of (year, month, day) \<Rightarrow>
        appendInt year 4 @ ''-'' @ appendInt month 2 @ ''-'' @ appendInt day 2)"

definition Format_Jan :: "Time \<Rightarrow> string" where
  "Format_Jan t = (case dateOf t of (year, month, day) \<Rightarrow> shortMonthNames ! nat (month - 1))"

definition Format_Jan_02 :: "Time \<Rightarrow> string" where
  "Format_Jan_02 t =
     (case dateOf t of (year, month, day) \<Rightarrow>
        shortMonthNames ! nat (month - 1) @ '' '' @ appendInt day 2)"

text \<open>
  \<^verbatim>\<open>time.Parse("2006-01-02", value)\<close>: four digits, a hyphen, two digits, a hyphen, two
  digits and nothing more; the month in 1..12 and the day in the month. Everything else
  is an error, here \<open>None\<close>.
\<close>

definition isDigit :: "char \<Rightarrow> bool" where
  "isDigit c \<longleftrightarrow> (48 :: nat) \<le> of_char c \<and> (of_char c :: nat) \<le> 57"

definition digit :: "char \<Rightarrow> int" where
  "digit c = int (of_char c) - 48"

fun Parse_2006_01_02 :: "string \<Rightarrow> Time option" where
  "Parse_2006_01_02 [y1, y2, y3, y4, h1, m1, m2, h2, d1, d2] =
     (if \<not> (isDigit y1 \<and> isDigit y2 \<and> isDigit y3 \<and> isDigit y4) then None
      else if h1 \<noteq> CHR ''-'' then None
      else if \<not> (isDigit m1 \<and> isDigit m2) then None
      else if h2 \<noteq> CHR ''-'' then None
      else if \<not> (isDigit d1 \<and> isDigit d2) then None
      else
        (let year = digit y1 * 1000 + digit y2 * 100 + digit y3 * 10 + digit y4;
             month = digit m1 * 10 + digit m2;
             day = digit d1 * 10 + digit d2
         in if month \<le> 0 \<or> 12 < month then None
            else if day < 1 \<or> daysIn month year < day then None
            else Some (Date year month day 0 0 0)))"
| "Parse_2006_01_02 _ = None"

section \<open>The week calendar (the Go file kept with README.md)\<close>

text \<open>
  Week boundaries are Monday 00:00:00 UTC to Sunday 23:59:59 UTC. A function that reads
  the clock takes the reading, \<open>now\<close>, as an argument.
\<close>

definition getWeekStart :: "Time \<Rightarrow> string" where
  "getWeekStart t =
     (let weekday = Weekday t;
          weekday = (if weekday = 0 then 7 else weekday);
          monday = AddDate t 0 0 (- (weekday - 1))
      in Format_2006_01_02 monday)"

definition getLastCompletedWeekStart :: "Time \<Rightarrow> string" where
  "getLastCompletedWeekStart now =
     (let weekday = Weekday now;
          lastSunday = (if weekday = 0 then AddDate now 0 0 (- 7) else AddDate now 0 0 (- weekday));
          monday = AddDate lastSunday 0 0 (- 6)
      in Format_2006_01_02 monday)"

text \<open>
  The error of \<^verbatim>\<open>time.Parse\<close> is dropped by the callers (\<^verbatim>\<open>t, _ := time.Parse(...)\<close>),
  which go on with the zero time.
\<close>

definition parseOrZero :: "string \<Rightarrow> Time" where
  "parseOrZero s = (case Parse_2006_01_02 s of Some t \<Rightarrow> t | None \<Rightarrow> zeroTime)"

text \<open>
  The loop of getLastNWeeks: \<^verbatim>\<open>for i := 0; i < n; i++\<close> writes slot \<open>n - 1 - i\<close> of
  the slice (\<open>ws\<close>) and steps \<open>t\<close> back a week.
\<close>

function getLastNWeeks_loop :: "nat \<Rightarrow> nat \<Rightarrow> Time \<Rightarrow> string list \<Rightarrow> string list" where
  "getLastNWeeks_loop i n t ws =
     (if i < n then
        getLastNWeeks_loop (i + 1) n (AddDate t 0 0 (- 7)) (ws[n - 1 - i := Format_2006_01_02 t])
      else ws)"
  by pat_completeness auto
termination
  by (relation "measure (\<lambda>(i, n, t, ws). n - i)") auto

declare getLastNWeeks_loop.simps [simp del]

text \<open>
  \<^verbatim>\<open>make([]string, n)\<close> panics for a negative \<open>n\<close>, and for an \<open>n\<close> whose string headers,
  16 bytes each, take more than \<open>maxAlloc\<close> bytes, the most the runtime of a 64-bit
  machine hands out: the result is \<open>None\<close> then. Every value of Go's \<^verbatim>\<open>int\<close> outside
  the range from 0 to \<open>maxAlloc div 16\<close> is such an \<open>n\<close>, so \<open>n\<close> is an integer here.
\<close>

definition maxAlloc :: int where
  "maxAlloc = 2 ^ 48"

definition getLastNWeeks :: "int \<Rightarrow> Time \<Rightarrow> string list option" where
  "getLastNWeeks n now =
     (let lastWeekStart = getLastCompletedWeekStart now;
          t = parseOrZero lastWeekStart
      in if n < 0 \<or> maxAlloc < 16 * n then None
         else Some (getLastNWeeks_loop 0 (nat n) t (replicate (nat n) '''')))"

definition getLast4Weeks :: "Time \<Rightarrow> string list" where
  "getLast4Weeks now = the (getLastNWeeks 4 now)"

definition getLast26Weeks :: "Time \<Rightarrow> string list" where
  "getLast26Weeks now = the (getLastNWeeks 26 now)"

definition weekStartToEnd :: "string \<Rightarrow> string" where
  "weekStartToEnd monday =
     (let t = parseOrZero monday;
          sunday = AddDate t 0 0 6
      in Format_2006_01_02 sunday)"

definition formatWeekEnd :: "string \<Rightarrow> string" where
  "formatWeekEnd monday =
     (let t = parseOrZero monday;
          sunday = AddDate t 0 0 6
      in Format_Jan_02 sunday)"

subsection \<open>The header of the weekly table\<close>

text \<open>printHeader of cmd/ashby.go, with the optional \<open>Current\<close> column.\<close>

definition printHeader_step :: "string \<Rightarrow> 'a world_scheme \<Rightarrow> 'a world_scheme" where
  "printHeader_step week s = Print (fmtS (weekColWidth (table s)) (formatWeekEnd week)) s"

definition printHeader :: "string \<Rightarrow> string \<Rightarrow> 'a world_scheme \<Rightarrow> 'a world_scheme" where
  "printHeader labelTitle currentWeek s0 =
     (let s = Print (fmtSleft (labelColWidth (table s0)) labelTitle) s0;
          s = fold printHeader_step (weeks (table s)) s;
          s = (if currentWeek \<noteq> '''' then Print (fmtS (weekColWidth (table s)) ''Current'') s else s)
      in Print (fmtS (weekColWidth (table s)) ''Total'' @ nl) s)"

text \<open>printHeader of src/unnamed/part_001.\<close>

definition printHeader_part001 :: "string \<Rightarrow> 'a world_scheme \<Rightarrow> 'a world_scheme" where
  "printHeader_part001 labelTitle s0 =
     (let s = Print (fmtSleft (labelColWidth (table s0)) labelTitle) s0;
          s = fold printHeader_step (weeks (table s)) s
      in Print (fmtS (weekColWidth (table s)) ''Total'' @ nl) s)"

section \<open>Notions of the specification\<close>

text \<open>The character of a decimal digit.\<close>

definition dc :: "nat \<Rightarrow> char" where
  "dc k = char_of (48 + k)"

text \<open>
  The dates the layout \<^verbatim>\<open>2006-01-02\<close> can write and read back: those of the years 0000
  to 9999.
\<close>

definition fourDigitYear :: "Time \<Rightarrow> bool" where
  "fourDigitYear t \<longleftrightarrow> (case dateOf t of (year, month, day) \<Rightarrow> 0 \<le> year \<and> year \<le> 9999)"

text \<open>
  The week of an instant, in the words of the specification: it begins on the Monday on
  or before the instant's day, at 00:00:00 UTC, and lasts seven days. Day 0 of the day
  count is a Thursday, so a day \<open>z\<close> is \<open>(z + 3) mod 7\<close> days after a Monday.
\<close>

definition weekMonday :: "Time \<Rightarrow> Time" where
  "weekMonday t = (t div 86400 - (t div 86400 + 3) mod 7) * 86400"

text \<open>
  The last completed week is the week before the one \<open>now\<close> lies in: its Sunday has
  ended, and the Sunday after it has not.
\<close>

definition lastCompletedMonday :: "Time \<Rightarrow> Time" where
  "lastCompletedMonday now = weekMonday now - 7 * 86400"

text \<open>
  The number a text denotes as a decimal numeral: digits with no leading zero (the text
  \<open>0\<close> apart), after a minus sign for a negative number. Any other text denotes none.
\<close>

definition readNat :: "string \<Rightarrow> nat" where
  "readNat s = foldl (\<lambda>a c. 10 * a + nat (digit c)) 0 s"

definition digitsValue :: "string \<Rightarrow> nat option" where
  "digitsValue s =
     (if s \<noteq> [] \<and> list_all isDigit s \<and> (if hd s = CHR ''0'' then s = ''0'' else True)
      then Some (readNat s) else None)"

definition decimalValue :: "string \<Rightarrow> int option" where
  "decimalValue s =
     (case s of
        [] \<Rightarrow> None
      | c # r \<Rightarrow>
          if c = CHR ''-'' then
            (case digitsValue r of
               None \<Rightarrow> None
             | Some n \<Rightarrow> if n = 0 then None else Some (- int n))
          else map_option int (digitsValue s))"


section \<open>float64: the operations printHistogram uses\<close>

text \<open>
  A finite float64 is modelled by the rational number it holds. Conversion from an
  integer, division and multiplication give the exact result rounded to the nearest
  number with a 53-bit significand, a tie going to the even significand. The exponent
  is not bounded here: the operands are conversions of 64-bit integers and the constants
  15, 26 and 30, and quotients and products of such, which lie far inside the range of
  the format. Division by zero does not occur: the divisors are 15, 26 and a positive
  maximum.
\<close>

fun bitLength :: "nat \<Rightarrow> nat" where
  "bitLength n = (if n = 0 then 0 else Suc (bitLength (n div 2)))"

declare bitLength.simps [simp del]

text \<open>For \<open>x > 0\<close>, the exponent \<open>e\<close> with \<open>2 ^ e \<le> x < 2 ^ (e + 1)\<close>.\<close>

definition ilog2 :: "rat \<Rightarrow> int" where
  "ilog2 x =
     (if 1 \<le> x then int (bitLength (nat \<lfloor>x\<rfloor>)) - 1
      else (let k = int (bitLength (nat \<lfloor>1 / x\<rfloor>)) - 1
            in if 2 powi (- k) \<le> x then - k else - k - 1))"

definition roundHalfEven :: "rat \<Rightarrow> int" where
  "roundHalfEven x =
     (let f = \<lfloor>x\<rfloor>; r = x - of_int f
      in if r < 1 / 2 then f
         else if 1 / 2 < r then f + 1
         else if even f then f else f + 1)"

definition fl64 :: "rat \<Rightarrow> rat" where
  "fl64 x =
     (if x = 0 then 0
      else (let u = 2 powi (ilog2 \<bar>x\<bar> - 52)
            in sgn x * of_int (roundHalfEven (\<bar>x\<bar> / u)) * u))"

text \<open>\<^verbatim>\<open>float64(n)\<close> for an int, \<^verbatim>\<open>a / b\<close>, \<^verbatim>\<open>a * b\<close>, and \<^verbatim>\<open>int(f)\<close>, which drops the fraction.\<close>

definition float64 :: "int64 \<Rightarrow> rat" where
  "float64 n = fl64 (of_int (sint n))"

definition fdiv :: "rat \<Rightarrow> rat \<Rightarrow> rat" where
  "fdiv a b = fl64 (a / b)"

definition fmul :: "rat \<Rightarrow> rat \<Rightarrow> rat" where
  "fmul a b = fl64 (a * b)"

definition intOfFloat :: "rat \<Rightarrow> int" where
  "intOfFloat f = (if 0 \<le> f then \<lfloor>f\<rfloor> else \<lceil>f\<rceil>)"

text \<open>
  \<^verbatim>\<open>%.1f\<close>: the value rounded to one decimal, a tie going to the even digit; the sign
  of a negative value stays when the digits round to zero.
\<close>

definition fmtF1 :: "rat \<Rightarrow> string" where
  "fmtF1 f =
     (let n = nat (roundHalfEven (\<bar>f\<bar> * 10))
      in (if f < 0 then ''-'' else '''') @ showNat (n div 10) @ ''.'' @ showNat (n mod 10))"

section \<open>The histogram (cmd/ashby.go, printHistogram)\<close>

text \<open>
  A Go map that is ranged over is modelled by its entries, in the order the iteration
  meets them; its keys are distinct. The values of the metrics map are pointers: \<open>None\<close>
  is the nil pointer, and reading a field through it panics. No function here writes to
  a metrics object, so the object stands for a pointer that is not nil.
\<close>

record ashbyJobMetrics =
  Department :: string
  Title :: string
  WeekCounts :: "(string \<times> int64) list"

type_synonym metricsMap = "(string \<times> ashbyJobMetrics option) list"

text \<open>\<^verbatim>\<open>weekTotals[week] += count\<close>, for every entry of every job.\<close>

definition addCount :: "string \<Rightarrow> int64 \<Rightarrow> (string \<rightharpoonup> int64) \<Rightarrow> (string \<rightharpoonup> int64)" where
  "addCount week count m = m(week \<mapsto> lookup m week + count)"

fun aggregateWeeks_loop :: "metricsMap \<Rightarrow> (string \<rightharpoonup> int64) \<Rightarrow> (string \<rightharpoonup> int64) option" where
  "aggregateWeeks_loop [] weekTotals = Some weekTotals"
| "aggregateWeeks_loop ((key, None) # rest) weekTotals = None"
| "aggregateWeeks_loop ((key, Some m) # rest) weekTotals =
     aggregateWeeks_loop rest (fold (\<lambda>(week, count). addCount week count) (WeekCounts m) weekTotals)"

definition aggregateWeeks :: "metricsMap \<Rightarrow> (string \<rightharpoonup> int64) option" where
  "aggregateWeeks metrics = aggregateWeeks_loop metrics Map.empty"

text \<open>The counts of the weeks shown, in order, and the largest of them that is above zero.\<close>

definition collectCounts :: "(string \<rightharpoonup> int64) \<Rightarrow> string list \<Rightarrow> int64 list \<times> int64" where
  "collectCounts weekTotals ws =
     fold (\<lambda>week (counts, maxCount).
             (let count = lookup weekTotals week
              in (counts @ [count], if maxCount <s count then count else maxCount)))
       ws ([], 0)"

definition barChar :: string where
  "barChar = [CHR 0xE2, CHR 0x96, CHR 0x88]"

definition smallSquare :: string where
  "smallSquare = [CHR 0xE2, CHR 0x96, CHR 0xAA]"

text \<open>One row of the chart: a column is filled when its count reaches the threshold of the row.\<close>

definition barRow :: "int64 \<Rightarrow> int64 list \<Rightarrow> int64 \<Rightarrow> string" where
  "barRow maxCount counts row =
     (let threshold = fmul (fdiv (float64 row) (float64 15)) (float64 maxCount)
      in fmtS 12 '''' @ concat (map (\<lambda>count. if threshold \<le> float64 count then barChar else '' '') counts) @ nl)"

definition monthLabels :: "string list \<Rightarrow> string" where
  "monthLabels ws =
     fst (fold (\<lambda>week (out, lastMonth).
                  (let t = parseOrZero week; month = Format_Jan t
                   in if month \<noteq> lastMonth then (out @ take 1 month, month) else (out @ '' '', lastMonth)))
            ws ('''', ''''))"

text \<open>
  \<^verbatim>\<open>strings.Repeat\<close> panics when the count is negative; a line of the breakdown is
  \<open>None\<close> then.
\<close>

definition RepeatInt :: "string \<Rightarrow> int \<Rightarrow> string option" where
  "RepeatInt s n = (if n < 0 then None else Some (Repeat s (nat n)))"

definition barLength :: "int64 \<Rightarrow> int64 \<Rightarrow> int" where
  "barLength count maxCount = intOfFloat (fmul (fdiv (float64 count) (float64 maxCount)) 30) + 1"

definition breakdownLine :: "int64 \<Rightarrow> string \<Rightarrow> int64 \<Rightarrow> string option" where
  "breakdownLine maxCount week count =
     (if 0 <s count then
        (case RepeatInt smallSquare (barLength count maxCount) of
           None \<Rightarrow> None
         | Some bar \<Rightarrow> Some (''  '' @ formatWeekEnd week @ ''  '' @ fmtD 3 count @ '' '' @ bar @ nl))
      else Some (''  '' @ formatWeekEnd week @ ''  '' @ fmtD 3 count @ nl))"

text \<open>
  The loop of the breakdown, \<^verbatim>\<open>for i, week := range weeks\<close>, with the output so far and
  the running total \<open>tot\<close>; a panic ends it.
\<close>

fun breakdown :: "int64 \<Rightarrow> int64 list \<Rightarrow> (nat \<times> string) list \<Rightarrow> string \<times> int64 \<Rightarrow> (string \<times> int64) option" where
  "breakdown maxCount counts [] acc = Some acc"
| "breakdown maxCount counts ((i, week) # rest) (out, tot) =
     (let count = counts ! i; tot = tot + count
      in case breakdownLine maxCount week count of
           None \<Rightarrow> None
         | Some line \<Rightarrow> breakdown maxCount counts rest (out @ line, tot))"

text \<open>
  What printHistogram writes before the lines of the breakdown: the title, the fifteen
  rows of the chart from the top, the axis, the month labels, the scale, the maximum and
  the heading of the breakdown.
\<close>

definition histogramHead :: "string list \<Rightarrow> int64 list \<Rightarrow> int64 \<Rightarrow> string" where
  "histogramHead ws counts maxCount =
     (let out = ''Applicants per Week (Last 6 Months)'' @ nl @ nl;
          out = out @ concat (map (barRow maxCount counts) (rev (map word_of_nat [1..<16])));
          out = out @ fmtS 12 '''' @ Repeat ''-'' 26 @ nl;
          out = out @ fmtS 12 '''' @ monthLabels ws @ nl;
          out = out @ nl @ ''Scale: Each row = '' @ fmtF1 (fdiv (float64 maxCount) (float64 15))
                  @ '' applicants'' @ nl;
          out = out @ ''Max: '' @ showInt (sint maxCount) @ '' applicants/week'' @ nl
      in out @ nl @ ''Weekly Breakdown:'' @ nl @ nl)"

definition printHistogram :: "Time \<Rightarrow> metricsMap \<Rightarrow> string option" where
  "printHistogram now metrics =
     (let ws = getLast26Weeks now
      in case aggregateWeeks metrics of
           None \<Rightarrow> None
         | Some weekTotals \<Rightarrow>
             (let (counts, maxCount) = collectCounts weekTotals ws
              in if maxCount = 0 then Some (''No applications in the last 6 months'' @ nl)
                 else
                   (case breakdown maxCount counts (enumerate 0 ws) (histogramHead ws counts maxCount, 0) of
                      None \<Rightarrow> None
                    | Some (out, tot) \<Rightarrow>
                        Some (out @ nl @ ''  Total: '' @ showInt (sint tot) @ '' applicants over 26 weeks'' @ nl
                              @ ''  Average: '' @ fmtF1 (fdiv (float64 tot) 26) @ '' applicants/week'' @ nl))))"

text \<open>The largest of the counts that is above \<open>mx\<close>, or \<open>mx\<close>: the maximum the loop over the weeks keeps.\<close>

definition maxOver :: "int64 list \<Rightarrow> int64 \<Rightarrow> int64" where
  "maxOver cs mx = fold (\<lambda>count maxCount. if maxCount <s count then count else maxCount) cs mx"

text \<open>A line of the breakdown as it is written when \<^verbatim>\<open>strings.Repeat\<close> does not panic.\<close>

definition breakdownText :: "int64 \<Rightarrow> string \<Rightarrow> int64 \<Rightarrow> string" where
  "breakdownText maxCount week count =
     ''  '' @ formatWeekEnd week @ ''  '' @ fmtD 3 count
       @ (if 0 <s count then '' '' @ Repeat smallSquare (nat (barLength count maxCount)) else '''') @ nl"

text \<open>
  The length of the bar of a week in the words of the specification: \<open>count / max * 30\<close>
  characters and at least one.
\<close>

definition claimedBarLength :: "int64 \<Rightarrow> int64 \<Rightarrow> int" where
  "claimedBarLength count maxCount =
     max 1 \<lfloor>(of_int (sint count) :: rat) / of_int (sint maxCount) * 30\<rfloor>"
section \<open>The grouped table (cmd/ashby.go, printTableGrouped)\<close>

text \<open>
  The jobs by department, \<^verbatim>\<open>deptJobs[m.Department] = append(deptJobs[m.Department], m)\<close>
  for the metrics in the order the iteration meets them. The map of the departments is
  held by its entries. Reading the department through a nil pointer panics: the
  result is \<open>None\<close> then.
\<close>

definition jobsOf :: "(string \<times> ashbyJobMetrics list) list \<Rightarrow> string \<Rightarrow> ashbyJobMetrics list" where
  "jobsOf deptJobs dept = (case map_of deptJobs dept of None \<Rightarrow> [] | Some jobs \<Rightarrow> jobs)"

fun groupJobs ::
  "metricsMap \<Rightarrow> (string \<times> ashbyJobMetrics list) list \<Rightarrow> (string \<times> ashbyJobMetrics list) list option" where
  "groupJobs [] deptJobs = Some deptJobs"
| "groupJobs ((key, None) # rest) deptJobs = None"
| "groupJobs ((key, Some m) # rest) deptJobs =
     groupJobs rest (AList.update (Department m) (jobsOf deptJobs (Department m) @ [m]) deptJobs)"

text \<open>The count a job has for a week: \<^verbatim>\<open>job.WeekCounts[week]\<close>, zero for a week the map does not hold.\<close>

definition jobCounts :: "ashbyJobMetrics \<Rightarrow> (string \<rightharpoonup> int64)" where
  "jobCounts job = map_of (WeekCounts job)"

text \<open>
  The label of a job: two spaces and the title, cut to 30 bytes and followed by three
  dots when it is longer than the label column less two.
\<close>

definition displayTitle :: "weeklyTable \<Rightarrow> string \<Rightarrow> string" where
  "displayTitle t title =
     (let d = ''  '' @ title
      in if int (labelColWidth t) - 2 < int (length d) then take (labelColWidth t - 5) d @ ''...''
         else d)"

text \<open>A call of printRow on the table, with what has been written so far; the total it returns is dropped.\<close>

definition callPrintRow :: "weeklyTable \<Rightarrow> string \<Rightarrow> (string \<rightharpoonup> int64) \<Rightarrow> string \<Rightarrow> string \<Rightarrow> string" where
  "callPrintRow t label weekCounts currentWeek out =
     stdout (printRow label currentWeek \<lparr>table = t, stdout = out, weekValues = weekCounts, rowTotal = 0\<rparr>)"

text \<open>
  The body of the loop over the jobs of a department: the row of the job, then its counts
  are added to the totals of all departments and to those of the department, week by
  week, and last the count of the current week.
\<close>

definition jobStep ::
  "weeklyTable \<Rightarrow> string list \<Rightarrow> string \<Rightarrow> ashbyJobMetrics
    \<Rightarrow> string \<times> (string \<rightharpoonup> int64) \<times> (string \<rightharpoonup> int64)
    \<Rightarrow> string \<times> (string \<rightharpoonup> int64) \<times> (string \<rightharpoonup> int64)" where
  "jobStep t ws currentWeek job = (\<lambda>(out, weekTotals, deptWeekTotals).
     (let out = callPrintRow t (displayTitle t (Title job)) (jobCounts job) currentWeek out;
          (weekTotals, deptWeekTotals) =
             fold (\<lambda>week (weekTotals, deptWeekTotals).
                     (let count = lookup (jobCounts job) week
                      in (addCount week count weekTotals, addCount week count deptWeekTotals)))
               ws (weekTotals, deptWeekTotals);
          deptWeekTotals = addCount currentWeek (lookup (jobCounts job) currentWeek) deptWeekTotals;
          weekTotals = addCount currentWeek (lookup (jobCounts job) currentWeek) weekTotals
      in (out, weekTotals, deptWeekTotals)))"

text \<open>What the body of the loop over the jobs adds to a map of totals for one job.\<close>

definition accumulate :: "string list \<Rightarrow> string \<Rightarrow> ashbyJobMetrics \<Rightarrow> (string \<rightharpoonup> int64) \<Rightarrow> (string \<rightharpoonup> int64)" where
  "accumulate ws currentWeek job m =
     addCount currentWeek (lookup (jobCounts job) currentWeek)
       (fold (\<lambda>week. addCount week (lookup (jobCounts job) week)) ws m)"

text \<open>
  The body of the loop over the departments: the name of the department between two line
  ends, the rows of its jobs, and the row of the subtotals.
\<close>

definition deptStep ::
  "weeklyTable \<Rightarrow> string list \<Rightarrow> string \<Rightarrow> (string \<times> ashbyJobMetrics list) list \<Rightarrow> string
    \<Rightarrow> string \<times> (string \<rightharpoonup> int64) \<Rightarrow> string \<times> (string \<rightharpoonup> int64)" where
  "deptStep t ws currentWeek deptJobs dept = (\<lambda>(out, weekTotals).
     (let jobs = jobsOf deptJobs dept;
          out = out @ nl @ dept @ nl;
          (out, weekTotals, deptWeekTotals) = fold (jobStep t ws currentWeek) jobs (out, weekTotals, Map.empty);
          out = callPrintRow t ''  Subtotal'' deptWeekTotals currentWeek out
      in (out, weekTotals)))"

text \<open>
  printTableGrouped. The weeks are those of the clock reading \<open>now\<close>. The key of the current
  week is what \<^verbatim>\<open>getCurrentWeekStart()\<close> returns, a function that is not among the
  sources: it is the argument \<open>currentWeek\<close>. \<^verbatim>\<open>sort.Slice\<close> with the comparison of the
  titles is the argument \<open>sortSlice\<close>: it is not stable, so the order of jobs with the same
  title is not fixed. \<^verbatim>\<open>sort.Strings\<close> puts the departments, which are distinct, in the
  order of their bytes. The argument \<^verbatim>\<open>totalApps\<close> of the source is not used by it.
\<close>

definition printTableGrouped ::
  "Time \<Rightarrow> string \<Rightarrow> (ashbyJobMetrics list \<Rightarrow> ashbyJobMetrics list) \<Rightarrow> metricsMap \<Rightarrow> string option" where
  "printTableGrouped now currentWeek sortSlice metrics =
     (let ws = getLast4Weeks now
      in case groupJobs metrics [] of
           None \<Rightarrow> None
         | Some deptJobs \<Rightarrow>
             (let depts = sort (map fst deptJobs);
                  deptJobs = map (\<lambda>(dept, jobs). (dept, sortSlice jobs)) deptJobs;
                  t = newWeeklyTable 35 10 ws;
                  s = printHeader ''Job'' currentWeek \<lparr>table = t, stdout = ''''\<rparr>;
                  s = printSeparator currentWeek s;
                  (out, weekTotals) = fold (deptStep t ws currentWeek deptJobs) depts (stdout s, Map.empty);
                  s = printSeparator currentWeek \<lparr>table = t, stdout = out\<rparr>;
                  s = printTotalsRow ''Total'' currentWeek
                        \<lparr>table = t, stdout = stdout s, weekValues = weekTotals, rowTotal = 0\<rparr>
              in Some (stdout s)))"

text \<open>Modelled from the spec: getCurrentWeekStart, which the sources call and do not hold.
  The current week is the week that contains \<open>now\<close>; its key is the key of \<open>now\<close>.\<close>

definition getCurrentWeekStart :: "Time \<Rightarrow> string" where
  "getCurrentWeekStart now = getWeekStart now"

text \<open>
  The rows of a department in the words of the specification: a row for each child with
  its counts, and a row of subtotals whose count for a week, and for the current week, is
  the sum of the counts the children have for it; the total of a row is the sum of its
  counts for the configured weeks.
\<close>

definition countOf :: "ashbyJobMetrics \<Rightarrow> string \<Rightarrow> int64" where
  "countOf job week = (case map_of (WeekCounts job) week of None \<Rightarrow> 0 | Some c \<Rightarrow> c)"

definition rowText :: "string list \<Rightarrow> string \<Rightarrow> string \<Rightarrow> (string \<Rightarrow> int64) \<Rightarrow> string" where
  "rowText ws currentWeek label counts =
     fmtSleft 35 label
       @ concat (map (\<lambda>week. countCell 10 (counts week)) ws)
       @ (if currentWeek = '''' then '''' else countCell 10 (counts currentWeek))
       @ fmtD 10 (sum_list (map counts ws)) @ nl"

definition childrenSum :: "ashbyJobMetrics list \<Rightarrow> string \<Rightarrow> int64" where
  "childrenSum jobs week = sum_list (map (\<lambda>job. countOf job week) jobs)"

definition deptBlock :: "string list \<Rightarrow> string \<Rightarrow> string \<Rightarrow> ashbyJobMetrics list \<Rightarrow> string" where
  "deptBlock ws currentWeek dept jobs =
     nl @ dept @ nl
       @ concat (map (\<lambda>job. rowText ws currentWeek (displayTitle (newWeeklyTable 35 10 ws) (Title job)) (countOf job)) jobs)
       @ rowText ws currentWeek ''  Subtotal'' (childrenSum jobs)"


section \<open>Properties of the text functions\<close>

lemma runeCountBytes_ascii: "list_all (\<lambda>b. b < 128) bs \<Longrightarrow> runeCountBytes bs = length bs"
proof (induction bs)
  case Nil
  show ?case by (simp add: runeCountBytes.simps)
next
  case (Cons b bs)
  then have "runeSize (b # bs) = 1" by (simp add: runeSize_def Let_def)
  with Cons show ?case by (subst runeCountBytes.simps) simp
qed

lemma RuneCount_ascii: "ascii s \<Longrightarrow> RuneCountInString s = length s"
  unfolding ascii_def RuneCountInString_def by (simp add: runeCountBytes_ascii list_all_iff)

lemma ascii_append [simp]: "ascii (xs @ ys) \<longleftrightarrow> ascii xs \<and> ascii ys"
  by (simp add: ascii_def)

lemma ascii_digit [simp]: "d < 10 \<Longrightarrow> ascii [char_of (48 + d :: nat)]"
proof -
  assume "d < 10"
  then have "(48 + d) mod 256 < 128" by simp
  then show ?thesis by (simp add: ascii_def)
qed

lemma ascii_showNat: "ascii (showNat n)"
proof (induction n rule: showNat.induct)
  case (1 n)
  show ?case
  proof (cases "n < 10")
    case True
    then show ?thesis by (subst showNat.simps) simp
  next
    case False
    with 1 show ?thesis by (subst showNat.simps) simp
  qed
qed

lemma ascii_showInt: "ascii (showInt i)"
  using ascii_showNat [of "nat i"] ascii_showNat [of "nat (- i)"]
  by (simp add: showInt_def ascii_def)

lemma fmtS_dash: "fmtS w ''-'' = spaces (w - 1) @ ''-''"
  by (simp add: fmtS_def RuneCount_ascii ascii_def)

lemma fmtD_eq: "fmtD w n = spaces (w - length (showInt (sint n))) @ showInt (sint n)"
  by (simp add: fmtD_def fmtS_def RuneCount_ascii ascii_showInt)

section \<open>Properties of the weekly table\<close>

lemma Print_table [simp]: "table (Print x s) = table s"
  and Print_stdout [simp]: "stdout (Print x s) = stdout s @ x"
  by (simp_all add: Print_def)

lemma Print_row [simp]: "weekValues (Print x s) = weekValues s" "rowTotal (Print x s) = rowTotal s"
  by (simp_all add: Print_def)

lemma Print_cell:
  "(if c = 0 then Print (fmtS w ''-'') s else Print (fmtD w c) s) = Print (countCell w c) s"
  by (simp add: countCell_def fmtS_dash fmtD_eq)

lemma printRow_step_eq:
  "printRow_step week s =
     s\<lparr>stdout := stdout s @ countCell (weekColWidth (table s)) (lookup (weekValues s) week),
       rowTotal := rowTotal s + lookup (weekValues s) week\<rparr>"
  by (simp add: printRow_step_def Let_def Print_cell)

text \<open>The loop over the configured weeks, by induction on the weeks still to print.\<close>

lemma fold_printRow_step:
  "fold printRow_step ws s =
     s\<lparr>stdout := stdout s @ concat (map (\<lambda>week. countCell (weekColWidth (table s)) (lookup (weekValues s) week)) ws),
       rowTotal := rowTotal s + sum_list (map (lookup (weekValues s)) ws)\<rparr>"
  by (induction ws arbitrary: s) (simp_all add: printRow_step_eq add.assoc)

lemma printTotalsRow_step_eq: "printTotalsRow_step = printRow_step"
  by (rule ext)+ (simp add: printTotalsRow_step_def printRow_step_def)

lemma printRowWithSlice_step_eq:
  "printRowWithSlice_step count s =
     s\<lparr>stdout := stdout s @ countCell (weekColWidth (table s)) count,
       rowTotal := rowTotal s + count\<rparr>"
  by (simp add: printRowWithSlice_step_def Let_def Print_cell)

lemma fold_printRowWithSlice_step:
  "fold printRowWithSlice_step cs s =
     s\<lparr>stdout := stdout s @ concat (map (countCell (weekColWidth (table s))) cs),
       rowTotal := rowTotal s + sum_list cs\<rparr>"
  by (induction cs arbitrary: s) (simp_all add: printRowWithSlice_step_eq add.assoc)

text \<open>
  C1. With a current-week key, printRow returns and prints as total the sum of the counts
  of the configured weeks alone. The count of the current week is looked up and written
  in a column of its own, between the weeks and the total, and is not added, whether or
  not the current week is one of the configured weeks.
\<close>

theorem printRow_total_excludes_current:
  assumes "currentWeek \<noteq> ''''"
  shows "rowTotal (printRow label currentWeek s) = sum_list (map (lookup (weekValues s)) (weeks (table s)))
    \<and> stdout (printRow label currentWeek s) =
      stdout s @ fmtSleft (labelColWidth (table s)) label
        @ concat (map (\<lambda>week. countCell (weekColWidth (table s)) (lookup (weekValues s) week)) (weeks (table s)))
        @ countCell (weekColWidth (table s)) (lookup (weekValues s) currentWeek)
        @ fmtD (weekColWidth (table s)) (sum_list (map (lookup (weekValues s)) (weeks (table s)))) @ nl"
  using assms
  by (simp add: printRow_def Let_def fold_printRow_step Print_cell)

text \<open>The current week is the second configured week here: 5 + 7 = 12, and 7 is not added again.\<close>

theorem printRow_total_excludes_current_witness:
  "''2024-03-11'' \<noteq> '''' \<and>
   rowTotal (printRow ''Job'' ''2024-03-11''
      \<lparr>table = newWeeklyTable 5 4 [''2024-03-04'', ''2024-03-11''], stdout = '''',
       weekValues = [''2024-03-04'' \<mapsto> 5, ''2024-03-11'' \<mapsto> 7], rowTotal = 99\<rparr>) = 12"
  using printRow_total_excludes_current [of "''2024-03-11''" "''Job''"
      "\<lparr>table = newWeeklyTable 5 4 [''2024-03-04'', ''2024-03-11''], stdout = '''',
       weekValues = [''2024-03-04'' \<mapsto> 5, ''2024-03-11'' \<mapsto> 7], rowTotal = 99\<rparr>"]
  by (simp add: newWeeklyTable_def lookup_def)

lemma fold_printHeader_step:
  "fold printHeader_step ws s =
     s\<lparr>stdout := stdout s @ concat (map (\<lambda>week. fmtS (weekColWidth (table s)) (formatWeekEnd week)) ws)\<rparr>"
  by (induction ws arbitrary: s) (simp_all add: printHeader_step_def Print_def)


section \<open>Properties of the calendar\<close>

text \<open>Taking up to three whole periods of \<open>k\<close> days out of at most four periods.\<close>

lemma min3_split:
  fixes x k :: int
  assumes "0 \<le> x" "x \<le> 4 * k" "0 < k"
  shows "0 \<le> min 3 (x div k)" "min 3 (x div k) \<le> 3"
    "0 \<le> x - k * min 3 (x div k)" "x - k * min 3 (x div k) \<le> k"
    "min 3 (x div k) < 3 \<Longrightarrow> x - k * min 3 (x div k) < k"
proof -
  define j where "j = x div k"
  define r where "r = x mod k"
  have x: "x = k * j + r" by (simp add: j_def r_def)
  have r: "0 \<le> r" "r < k" using assms(3) by (simp_all add: r_def)
  have j0: "0 \<le> j" using assms by (simp add: j_def pos_imp_zdiv_nonneg_iff)
  have "k * j \<le> 4 * k" using x r assms(2) by linarith
  then have "k * j < k * 5" using assms(3) by linarith
  then have j4: "j \<le> 4" using assms(3) by (simp add: mult_less_cancel_left_pos)
  show "0 \<le> min 3 (x div k)" "min 3 (x div k) \<le> 3"
    using j0 by (simp_all add: j_def [symmetric])
  consider "j \<le> 3" | "j = 4" using j4 by linarith
  then have "0 \<le> x - k * min 3 j \<and> x - k * min 3 j \<le> k \<and> (min 3 j < 3 \<longrightarrow> x - k * min 3 j < k)"
  proof cases
    case 1
    then have "min 3 j = j" by simp
    with x r show ?thesis by simp
  next
    case 2
    then have m: "min 3 j = 3" by simp
    from 2 x have "x = 4 * k + r" by simp
    with assms(2) r m show ?thesis by (simp add: algebra_simps)
  qed
  then show "0 \<le> x - k * min 3 (x div k)" "x - k * min 3 (x div k) \<le> k"
    "min 3 (x div k) < 3 \<Longrightarrow> x - k * min 3 (x div k) < k"
    by (simp_all add: j_def [symmetric])
qed

text \<open>From the day of the 400 years to the year in them and the day of that year, and back;
  a day 365 is the 29th of February of a leap year.\<close>

lemma cascade:
  fixes doe :: int
  assumes doe: "0 \<le> doe" "doe < 146097"
    and c_def: "c = min 3 (doe div 36524)"
    and doc_def: "doc = doe - 36524 * c"
    and q_def: "q = doc div 1461"
    and doq_def: "doq = doc mod 1461"
    and a_def: "a = min 3 (doq div 365)"
    and doy_def: "doy = doq - 365 * a"
    and yoe_def: "yoe = 100 * c + 4 * q + a"
  shows "0 \<le> yoe" "yoe < 400" "0 \<le> doy" "doy \<le> 365"
    and "yoe * 365 + yoe div 4 - yoe div 100 + doy = doe"
    and "doy = 365 \<Longrightarrow> (yoe + 1) mod 4 = 0 \<and> ((yoe + 1) mod 100 \<noteq> 0 \<or> yoe + 1 = 400)"
proof -
  have c: "0 \<le> c" "c \<le> 3" and doc: "0 \<le> doc" "doc \<le> 36524" "c < 3 \<Longrightarrow> doc < 36524"
    using min3_split [of doe 36524] doe by (simp_all add: c_def doc_def)
  have doq: "0 \<le> doq" "doq < 1461" "doc = 1461 * q + doq"
    unfolding doq_def q_def by simp_all
  have q0: "0 \<le> q" using doc(1) by (simp add: q_def pos_imp_zdiv_nonneg_iff)
  have "1461 * q \<le> 36524" using doq doc(2) by linarith
  then have q24: "q \<le> 24" by linarith
  have "1461 * q < 36524 - 1460" if "q < 24" using that by linarith
  have a: "0 \<le> a" "a \<le> 3" and doy: "0 \<le> doy" "doy \<le> 365" "a < 3 \<Longrightarrow> doy < 365"
    using min3_split [of doq 365] doq by (simp_all add: a_def doy_def)
  show "0 \<le> yoe" "yoe < 400" "0 \<le> doy" "doy \<le> 365"
    using c q0 q24 a doy by (simp_all add: yoe_def)
  have "yoe = 4 * (25 * c + q) + a" by (simp add: yoe_def)
  then have "yoe div 4 = 25 * c + q + a div 4" by (simp only: div_mult_self4)
  then have y4: "yoe div 4 = 25 * c + q" using a by simp
  have "yoe = 100 * c + (4 * q + a)" by (simp add: yoe_def)
  then have "yoe div 100 = c + (4 * q + a) div 100" by (simp only: div_mult_self4)
  moreover have "(4 * q + a) div 100 = 0" using a q0 q24 by (simp add: div_pos_pos_trivial)
  ultimately have y100: "yoe div 100 = c" by simp
  show "yoe * 365 + yoe div 4 - yoe div 100 + doy = doe"
    unfolding y4 y100 using doq(3) by (simp add: yoe_def doy_def doc_def)
  show "(yoe + 1) mod 4 = 0 \<and> ((yoe + 1) mod 100 \<noteq> 0 \<or> yoe + 1 = 400)" if "doy = 365"
  proof -
    from that doy(3) a have a3: "a = 3" by linarith
    from that a3 have "doq = 1460" by (simp add: doy_def)
    with doq(3) have dq: "doc = 1461 * q + 1460" by simp
    have "yoe + 1 = 4 * (25 * c + q + 1)" by (simp add: yoe_def a3)
    then have m4: "(yoe + 1) mod 4 = 0" by simp
    have "yoe + 1 = 400" if z: "(yoe + 1) mod 100 = 0"
    proof -
      have "yoe + 1 = 100 * c + (4 * q + 4)" by (simp add: yoe_def a3)
      then have "(yoe + 1) mod 100 = (4 * q + 4) mod 100" by (simp only: mod_mult_self4)
      with z have z': "(4 * q + 4) mod 100 = 0" by simp
      have "q = 24"
      proof (rule ccontr)
        assume "q \<noteq> 24"
        with q24 q0 have "0 \<le> 4 * q + 4" "4 * q + 4 < 100" by linarith+
        then have "(4 * q + 4) mod 100 = 4 * q + 4" by (simp add: mod_pos_pos_trivial)
        with z' q0 show False by linarith
      qed
      with dq have "doc = 36524" by simp
      with doc(3) c have "c = 3" by linarith
      with \<open>q = 24\<close> a3 show ?thesis by (simp add: yoe_def)
    qed
    with m4 show ?thesis by auto
  qed
qed

lemma month_of_year_day:
  fixes doy :: int
  assumes doy: "0 \<le> doy" "doy \<le> 365"
    and mp_def: "mp = (5 * doy + 2) div 153"
    and d_def: "d = doy - (153 * mp + 2) div 5 + 1"
    and m_def: "m = (if mp < 10 then mp + 3 else mp - 9)"
  shows "1 \<le> m" "m \<le> 12" "1 \<le> d"
    and "(if 2 < m then m - 3 else m + 9) = mp"
    and "d \<le> [31, 28, 31, 30, 31, 30, 31, 31, 30, 31, 30, 31] ! nat (m - 1) \<or> (m = 2 \<and> d = 29 \<and> doy = 365)"
proof -
  have lo: "153 * mp \<le> 5 * doy + 2" and hi: "5 * doy + 2 < 153 * mp + 153"
    using  div_mult_mod_eq [of "5 * doy + 2" 153] pos_mod_bound [of 153 "5 * doy + 2"]
      pos_mod_sign [of 153 "5 * doy + 2"]
    unfolding mp_def by linarith+
  from lo hi doy have "0 \<le> mp" "mp \<le> 11" by linarith+
  then have "mp = 0 \<or> mp = 1 \<or> mp = 2 \<or> mp = 3 \<or> mp = 4 \<or> mp = 5 \<or> mp = 6
    \<or> mp = 7 \<or> mp = 8 \<or> mp = 9 \<or> mp = 10 \<or> mp = 11" by presburger
  then consider "mp = 0" | "mp = 1" | "mp = 2" | "mp = 3" | "mp = 4" | "mp = 5" | "mp = 6"
    | "mp = 7" | "mp = 8" | "mp = 9" | "mp = 10" | "mp = 11" by blast
  then have "1 \<le> m \<and> m \<le> 12 \<and> 1 \<le> d \<and> (if 2 < m then m - 3 else m + 9) = mp \<and>
    (d \<le> [31, 28, 31, 30, 31, 30, 31, 31, 30, 31, 30, 31] ! nat (m - 1) \<or> (m = 2 \<and> d = 29 \<and> doy = 365))"
    using lo hi doy by cases (auto simp: m_def d_def)
  then show "1 \<le> m" "m \<le> 12" "1 \<le> d"
    and "(if 2 < m then m - 3 else m + 9) = mp"
    and "d \<le> [31, 28, 31, 30, 31, 30, 31, 31, 30, 31, 30, 31] ! nat (m - 1) \<or> (m = 2 \<and> d = 29 \<and> doy = 365)"
    by simp_all
qed

lemma civilFromDays_props:
  assumes civ: "civilFromDays z = (y, m, d)"
  shows "daysFromCivil y m d = z" and "1 \<le> m" and "m \<le> 12" and "1 \<le> d" and "d \<le> daysIn m y"
proof -
  define z' where "z' = z + 719468"
  define era where "era = z' div 146097"
  define doe where "doe = z' mod 146097"
  define c where "c = min 3 (doe div 36524)"
  define doc where "doc = doe - 36524 * c"
  define q where "q = doc div 1461"
  define doq where "doq = doc mod 1461"
  define a where "a = min 3 (doq div 365)"
  define doy where "doy = doq - 365 * a"
  define yoe where "yoe = 100 * c + 4 * q + a"
  define mp where "mp = (5 * doy + 2) div 153"
  define dd where "dd = doy - (153 * mp + 2) div 5 + 1"
  define mm where "mm = (if mp < 10 then mp + 3 else mp - 9)"
  have "civilFromDays z = (yoe + era * 400 + (if mm \<le> 2 then 1 else 0), mm, dd)"
    by (simp only: civilFromDays_def Let_def z'_def era_def doe_def c_def doc_def q_def doq_def
        a_def doy_def yoe_def mp_def dd_def mm_def)
  with civ have y: "y = yoe + era * 400 + (if mm \<le> 2 then 1 else 0)" and m: "m = mm" and d: "d = dd"
    by auto
  have doe: "0 \<le> doe" "doe < 146097" by (simp_all add: doe_def)
  note cas = cascade [OF doe c_def doc_def q_def doq_def a_def doy_def yoe_def]
  note mon = month_of_year_day [OF cas(3,4) mp_def dd_def mm_def]
  show "1 \<le> m" "m \<le> 12" "1 \<le> d" using mon(1-3) by (simp_all add: m d)
  have y': "(if m \<le> 2 then y - 1 else y) = era * 400 + yoe" by (simp add: y m)
  have era': "(era * 400 + yoe) div 400 = era" using cas(1,2) by (simp add: div_pos_pos_trivial)
  have yoe': "(era * 400 + yoe) mod 400 = yoe" using cas(1,2) by (simp add: mod_pos_pos_trivial)
  have doy': "(153 * mp + 2) div 5 + d - 1 = doy" by (simp add: d dd_def)
  have z: "era * 146097 + doe = z'" by (simp add: era_def doe_def)
  have mp': "(if 2 < m then m - 3 else m + 9) = mp" unfolding m by (rule mon(4))
  have "daysFromCivil y m d =
      (era * 400 + yoe) div 400 * 146097
      + ((era * 400 + yoe) mod 400 * 365 + (era * 400 + yoe) mod 400 div 4
         - (era * 400 + yoe) mod 400 div 100 + ((153 * mp + 2) div 5 + d - 1)) - 719468"
    by (simp only: daysFromCivil_def Let_def y' mp')
  also have "\<dots> = era * 146097 + (yoe * 365 + yoe div 4 - yoe div 100 + doy) - 719468"
    by (simp only: era' yoe' doy')
  also have "\<dots> = z" using cas(5) z by (simp add: z'_def)
  finally show "daysFromCivil y m d = z" .
  show "d \<le> daysIn m y"
  proof (cases "m = 2 \<and> d = 29 \<and> doy = 365")
    case True
    with cas(6) have l: "(yoe + 1) mod 4 = 0" "(yoe + 1) mod 100 \<noteq> 0 \<or> yoe + 1 = 400" by simp_all
    from True m have yy: "y = era * 400 + (yoe + 1)" by (simp add: y)
    have "y = 4 * (era * 100) + (yoe + 1)" by (simp add: yy)
    then have "y mod 4 = (yoe + 1) mod 4" by (simp only: mod_mult_self4)
    moreover have "y = 100 * (era * 4) + (yoe + 1)" by (simp add: yy)
    then have "y mod 100 = (yoe + 1) mod 100" by (simp only: mod_mult_self4)
    moreover have "yoe + 1 = 400 \<Longrightarrow> y mod 400 = 0" unfolding yy by simp
    ultimately have "isLeap y" using l by (auto simp: isLeap_def)
    with True show ?thesis by (simp add: daysIn_def)
  next
    case False
    with mon(5) have le: "d \<le> [31, 28, 31, 30, 31, 30, 31, 31, 30, 31, 30, 31] ! nat (m - 1)"
      unfolding m d by blast
    show ?thesis
    proof (cases "m = 2 \<and> isLeap y")
      case True
      with le show ?thesis by (simp add: daysIn_def)
    next
      case False
      then have "daysIn m y = [31, 28, 31, 30, 31, 30, 31, 31, 30, 31, 30, 31] ! nat (m - 1)"
        unfolding daysIn_def by (rule if_not_P)
      with le show ?thesis by simp
    qed
  qed
qed

text \<open>In UTC, AddDate by days alone is a shift by that many times 86400 seconds.\<close>

lemma daysFromCivil_day: "daysFromCivil y m (d + k) = daysFromCivil y m d + k"
  by (simp add: daysFromCivil_def Let_def)

lemma clock_sum:
  fixes s :: int
  shows "s div 3600 * 3600 + s mod 3600 div 60 * 60 + s mod 60 = s"
proof -
  have "s mod 3600 mod 60 = s mod 60" by (simp add: mod_mod_cancel)
  then have "s mod 3600 div 60 * 60 + s mod 60 = s mod 3600"
    using div_mult_mod_eq [of "s mod 3600" 60] by simp
  then show ?thesis using div_mult_mod_eq [of s 3600] by linarith
qed

lemma AddDate_days: "AddDate t 0 0 k = t + k * 86400"
proof -
  obtain y m d where civ: "civilFromDays (t div 86400) = (y, m, d)" by (cases "civilFromDays (t div 86400)")
  note p = civilFromDays_props [OF civ]
  have m1: "(m - 1) div 12 = 0" "(m - 1) mod 12 + 1 = m"
    using p(2,3) by (simp_all add: div_pos_pos_trivial mod_pos_pos_trivial)
  have "AddDate t 0 0 k =
      daysFromCivil y m (d + k) * 86400
      + ((t mod 86400) div 3600 * 3600 + (t mod 86400) mod 3600 div 60 * 60 + (t mod 86400) mod 60)"
    by (simp add: AddDate_def dateOf_def clockOf_def civ Date_def Let_def m1)
  also have "\<dots> = (t div 86400 + k) * 86400 + t mod 86400"
    by (simp only: clock_sum daysFromCivil_day p(1))
  also have "\<dots> = t + k * 86400"
    using div_mult_mod_eq [of t 86400] by (simp add: algebra_simps)
  finally show ?thesis .
qed

lemma day_shift: "(t + k * 86400) div 86400 = t div 86400 + (k :: int)"
  by simp

lemma Weekday_range: "0 \<le> Weekday t" "Weekday t < 7"
  by (simp_all add: Weekday_def)

section \<open>Properties of the layouts\<close>

lemma showNat_dc: "showNat n = (if n < 10 then [dc n] else showNat (n div 10) @ [dc (n mod 10)])"
  by (subst showNat.simps) (simp add: dc_def)

lemma showNat_1: "n < 10 \<Longrightarrow> showNat n = [dc n]"
  by (subst showNat_dc) simp

lemma showNat_2: "10 \<le> n \<Longrightarrow> n < 100 \<Longrightarrow> showNat n = [dc (n div 10), dc (n mod 10)]"
  by (subst showNat_dc) (simp add: showNat_1)

lemma showNat_3: "100 \<le> n \<Longrightarrow> n < 1000 \<Longrightarrow> showNat n = [dc (n div 100), dc (n div 10 mod 10), dc (n mod 10)]"
  by (subst showNat_dc) (simp add: showNat_2 div_mult2_eq [symmetric])

lemma showNat_4: "1000 \<le> n \<Longrightarrow> n < 10000 \<Longrightarrow>
    showNat n = [dc (n div 1000), dc (n div 100 mod 10), dc (n div 10 mod 10), dc (n mod 10)]"
  by (subst showNat_dc) (simp add: showNat_3 div_mult2_eq [symmetric])

lemma length_showNat_pos: "1 \<le> length (showNat n)"
  by (subst showNat_dc) simp

lemma length_showNat_5: "10000 \<le> n \<Longrightarrow> 5 \<le> length (showNat n)"
proof -
  assume n: "10000 \<le> n"
  have l: "length (showNat k) = Suc (length (showNat (k div 10)))" if "10 \<le> k" for k
    using that by (subst showNat_dc) simp
  have "length (showNat n) = Suc (Suc (Suc (Suc (length (showNat (n div 10 div 10 div 10 div 10))))))"
    using n by (simp add: l)
  with length_showNat_pos [of "n div 10 div 10 div 10 div 10"] show ?thesis by linarith
qed

lemma dc_0: "CHR ''0'' = dc 0"
  by (rule of_char_eqI [where ?'a = nat]) (simp add: dc_def)

lemma replicate_3: "replicate 3 x = [x, x, x]"
  by (simp add: numeral_3_eq_3)

lemma replicate_2: "replicate 2 x = [x, x]"
  by (simp add: numeral_2_eq_2)

lemma pad4:
  assumes "n < 10000"
  shows "replicate (4 - length (showNat n)) (CHR ''0'') @ showNat n
    = [dc (n div 1000), dc (n div 100 mod 10), dc (n div 10 mod 10), dc (n mod 10)]"
proof -
  note z = dc_0
  consider "n < 10" | "10 \<le> n" "n < 100" | "100 \<le> n" "n < 1000" | "1000 \<le> n" using assms by linarith
  then show ?thesis
  proof cases
    case 1 then show ?thesis by (simp add: showNat_1 z replicate_3)
  next
    case 2 then show ?thesis by (simp add: showNat_2 z replicate_2)
  next
    case 3 then show ?thesis by (simp add: showNat_3 z)
  next
    case 4 with assms show ?thesis by (simp add: showNat_4)
  qed
qed

lemma pad2:
  assumes "n < 100"
  shows "replicate (2 - length (showNat n)) (CHR ''0'') @ showNat n = [dc (n div 10), dc (n mod 10)]"
proof (cases "n < 10")
  case True
  then show ?thesis by (simp add: showNat_1 dc_0)
next
  case False
  with assms show ?thesis by (simp add: showNat_2)
qed

lemma of_char_dc: "k < 10 \<Longrightarrow> of_char (dc k) = (48 + k :: nat)"
  by (simp add: dc_def)

lemma isDigit_dc: "k < 10 \<Longrightarrow> isDigit (dc k)"
  by (simp add: isDigit_def of_char_dc)

lemma digit_dc: "k < 10 \<Longrightarrow> digit (dc k) = int k"
  by (simp add: digit_def of_char_dc)

lemma dc_not_minus: "k < 10 \<Longrightarrow> dc k \<noteq> CHR ''-''"
proof
  assume "k < 10" "dc k = CHR ''-''"
  then have "k < 10" "of_char (dc k) = (45 :: nat)" by simp_all
  then show False by (simp add: of_char_dc)
qed


lemma digits4:
  fixes n :: nat
  assumes "n < 10000"
  shows "int (n div 1000) * 1000 + int (n div 100 mod 10) * 100 + int (n div 10 mod 10) * 10 + int (n mod 10) = int n"
proof -
  have a: "n = 10 * (n div 10) + n mod 10" by simp
  have b: "n div 10 = 10 * (n div 100) + n div 10 mod 10"
    using div_mult_mod_eq [of "n div 10" 10] by (simp add: div_mult2_eq [symmetric])
  have c: "n div 100 = 10 * (n div 1000) + n div 100 mod 10"
    using div_mult_mod_eq [of "n div 100" 10] by (simp add: div_mult2_eq [symmetric])
  from a b c have "n div 1000 * 1000 + n div 100 mod 10 * 100 + n div 10 mod 10 * 10 + n mod 10 = n"
    by linarith
  then have "int (n div 1000 * 1000 + n div 100 mod 10 * 100 + n div 10 mod 10 * 10 + n mod 10) = int n"
    by (rule arg_cong)
  then show ?thesis by (simp only: of_nat_add of_nat_mult of_nat_numeral)
qed

lemma digits2:
  fixes n :: nat
  shows "int (n div 10) * 10 + int (n mod 10) = int n"
proof -
  have "n div 10 * 10 + n mod 10 = n" by simp
  then have "int (n div 10 * 10 + n mod 10) = int n" by (rule arg_cong)
  then show ?thesis by (simp only: of_nat_add of_nat_mult of_nat_numeral)
qed

lemma appendInt_4:
  assumes "0 \<le> x" "x \<le> 9999"
  shows "appendInt x 4 = [dc (nat x div 1000), dc (nat x div 100 mod 10), dc (nat x div 10 mod 10), dc (nat x mod 10)]"
proof -
  from assms have "nat x < 10000" by linarith
  from pad4 [OF this] assms(1) show ?thesis by (simp add: appendInt_def Let_def)
qed

lemma appendInt_2:
  assumes "0 \<le> x" "x \<le> 99"
  shows "appendInt x 2 = [dc (nat x div 10), dc (nat x mod 10)]"
proof -
  from assms have "nat x < 100" by linarith
  from pad2 [OF this] assms(1) show ?thesis by (simp add: appendInt_def Let_def)
qed

lemma daysIn_le_31:
  assumes "1 \<le> m" "m \<le> 12"
  shows "daysIn m y \<le> 31"
proof -
  from assms have "m = 1 \<or> m = 2 \<or> m = 3 \<or> m = 4 \<or> m = 5 \<or> m = 6 \<or> m = 7 \<or> m = 8
    \<or> m = 9 \<or> m = 10 \<or> m = 11 \<or> m = 12" by presburger
  then show ?thesis by (auto simp: daysIn_def)
qed


lemma Date_midnight:
  assumes "1 \<le> m" "m \<le> 12"
  shows "Date y m d 0 0 0 = daysFromCivil y m d * 86400"
proof -
  have "(m - 1) div 12 = 0" "(m - 1) mod 12 + 1 = m"
    using assms by (simp_all add: div_pos_pos_trivial mod_pos_pos_trivial)
  then show ?thesis by (simp add: Date_def Let_def)
qed

lemma Parse_digits:
  assumes "y1 < 10" "y2 < 10" "y3 < 10" "y4 < 10" "m1 < 10" "m2 < 10" "d1 < 10" "d2 < 10"
    and "int y1 * 1000 + int y2 * 100 + int y3 * 10 + int y4 = yv"
    and "int m1 * 10 + int m2 = mv"
    and "int d1 * 10 + int d2 = dv"
    and "1 \<le> mv" "mv \<le> 12" "1 \<le> dv" "dv \<le> daysIn mv yv"
  shows "Parse_2006_01_02 [dc y1, dc y2, dc y3, dc y4, CHR ''-'', dc m1, dc m2, CHR ''-'', dc d1, dc d2]
    = Some (Date yv mv dv 0 0 0)"
  using assms by (simp add: isDigit_dc digit_dc Let_def)

lemma Parse_Format:
  assumes "fourDigitYear t"
  shows "Parse_2006_01_02 (Format_2006_01_02 t) = Some (t div 86400 * 86400)"
proof -
  obtain y m d where civ: "civilFromDays (t div 86400) = (y, m, d)" by (cases "civilFromDays (t div 86400)")
  note p = civilFromDays_props [OF civ]
  from assms civ have y: "0 \<le> y" "y \<le> 9999" by (simp_all add: fourDigitYear_def dateOf_def)
  from p daysIn_le_31 [of m y] have d: "0 \<le> d" "d \<le> 99" and m: "0 \<le> m" "m \<le> 99" by linarith+
  have ny: "nat y < 10000" using y by linarith
  have f: "Format_2006_01_02 t =
      [dc (nat y div 1000), dc (nat y div 100 mod 10), dc (nat y div 10 mod 10), dc (nat y mod 10),
       CHR ''-'', dc (nat m div 10), dc (nat m mod 10), CHR ''-'', dc (nat d div 10), dc (nat d mod 10)]"
    by (simp add: Format_2006_01_02_def dateOf_def civ appendInt_4 [OF y] appendInt_2 [OF m] appendInt_2 [OF d])
  have ey: "int (nat y div 1000) * 1000 + int (nat y div 100 mod 10) * 100 + int (nat y div 10 mod 10) * 10 + int (nat y mod 10) = y"
    using digits4 [OF ny] y by simp
  have em: "int (nat m div 10) * 10 + int (nat m mod 10) = m" using digits2 [of "nat m"] m by simp
  have ed: "int (nat d div 10) * 10 + int (nat d mod 10) = d" using digits2 [of "nat d"] d by simp
  have lt: "nat y div 1000 < 10" "nat m div 10 < 10" "nat d div 10 < 10"
    using ny m d by (simp_all add: less_mult_imp_div_less)
  have "Parse_2006_01_02 (Format_2006_01_02 t) = Some (Date y m d 0 0 0)"
    unfolding f by (rule Parse_digits [OF _ _ _ _ _ _ _ _ ey em ed p(2) p(3) p(4) p(5)]) (simp_all add: lt)
  with p(1-3) show ?thesis by (simp add: Date_midnight)
qed

lemma Parse_length: "Parse_2006_01_02 s = Some t \<Longrightarrow> length s = 10"
  by (cases s rule: Parse_2006_01_02.cases) simp_all

section \<open>Properties of the week calendar\<close>

lemma Format_day: "t div 86400 = u div 86400 \<Longrightarrow> Format_2006_01_02 t = Format_2006_01_02 u"
  by (simp add: Format_2006_01_02_def dateOf_def)

lemma weekMonday_day: "weekMonday t div 86400 = t div 86400 - (t div 86400 + 3) mod 7"
  by (simp add: weekMonday_def)

lemma iso_weekday:
  fixes z :: int
  shows "(if (z + 4) mod 7 = 0 then 7 else (z + 4) mod 7) - 1 = (z + 3) mod 7"
proof -
  define r where "r = (z + 3) mod 7"
  have "(r + 1) mod 7 = (z + 3 + 1) mod 7" unfolding r_def by (rule mod_add_left_eq)
  then have e: "(z + 4) mod 7 = (r + 1) mod 7" by (simp add: add.assoc)
  have r: "0 \<le> r" "r < 7" by (simp_all add: r_def)
  have "(if (r + 1) mod 7 = 0 then 7 else (r + 1) mod 7) - 1 = r"
  proof (cases "r = 6")
    case True
    then show ?thesis by simp
  next
    case False
    with r have "(r + 1) mod 7 = r + 1" by (simp add: mod_pos_pos_trivial)
    with r show ?thesis by simp
  qed
  then show ?thesis unfolding e r_def .
qed

lemma getWeekStart_eq: "getWeekStart t = Format_2006_01_02 (weekMonday t)"
proof -
  have "AddDate t 0 0 (- ((if Weekday t = 0 then 7 else Weekday t) - 1)) div 86400
      = t div 86400 + - ((if (t div 86400 + 4) mod 7 = 0 then 7 else (t div 86400 + 4) mod 7) - 1)"
    by (simp only: AddDate_days day_shift Weekday_def)
  also have "\<dots> = weekMonday t div 86400"
    by (simp only: iso_weekday weekMonday_day)
  finally show ?thesis
    unfolding getWeekStart_def Let_def by (rule Format_day)
qed

lemma Weekday_weekMonday: "Weekday (weekMonday t) = 1"
proof -
  define d where "d = t div 86400"
  define q where "q = (d + 3) div 7"
  define r where "r = (d + 3) mod 7"
  have "d + 3 = 7 * q + r" by (simp add: q_def r_def)
  then have "d - r + 4 = 7 * q + 1" by linarith
  then have "(d - r + 4) mod 7 = 1 mod 7" by (simp only: mod_mult_self4)
  then show ?thesis unfolding Weekday_def weekMonday_day d_def r_def by simp
qed

lemma weekMonday_bounds: "weekMonday t \<le> t" "t < weekMonday t + 7 * 86400" "weekMonday t mod 86400 = 0"
proof -
  define d where "d = t div 86400"
  define s where "s = t mod 86400"
  define r where "r = (d + 3) mod 7"
  have r: "0 \<le> r" "r < 7" by (simp_all add: r_def)
  have t: "t = d * 86400 + s" by (simp add: d_def s_def)
  have m: "0 \<le> s" "s < 86400" by (simp_all add: s_def)
  have w: "weekMonday t = d * 86400 - r * 86400"
    by (simp add: weekMonday_def algebra_simps d_def r_def)
  show "weekMonday t \<le> t" using r t m w by linarith
  show "t < weekMonday t + 7 * 86400" using r t m w by linarith
  show "weekMonday t mod 86400 = 0" by (simp add: weekMonday_def)
qed

text \<open>Every instant of a week has the same Monday.\<close>

lemma weekMonday_unique:
  assumes "Weekday m = 1" "m mod 86400 = 0" "m \<le> u" "u < m + 7 * 86400"
  shows "weekMonday u = m"
proof -
  define z where "z = m div 86400"
  have "z * 86400 + m mod 86400 = m" by (simp add: z_def)
  with assms(2) have m: "m = z * 86400" by simp
  define k where "k = u div 86400 - z"
  define s where "s = u mod 86400"
  have u: "u = z * 86400 + k * 86400 + s" by (simp add: k_def s_def algebra_simps)
  have um: "0 \<le> s" "s < 86400" by (simp_all add: s_def)
  have k: "0 \<le> k" "k < 7" using assms(3,4) u um unfolding m by linarith+
  define q where "q = (z + 4) div 7"
  have "(z + 4) mod 7 = 1" using assms(1) by (simp add: Weekday_def z_def)
  moreover have "z + 4 = 7 * q + (z + 4) mod 7" by (simp add: q_def)
  ultimately have "z + k + 3 = 7 * q + k" by simp
  then have "(z + k + 3) mod 7 = k mod 7" by (simp only: mod_mult_self4)
  with k have r: "(z + k + 3) mod 7 = k" by (simp add: mod_pos_pos_trivial)
  have "u div 86400 = z + k" by (simp add: k_def)
  then show ?thesis by (simp add: weekMonday_def r m)
qed

lemma lastCompletedMonday_day:
  "lastCompletedMonday now div 86400 = now div 86400 - (now div 86400 + 3) mod 7 - 7"
proof -
  have "lastCompletedMonday now = (now div 86400 - (now div 86400 + 3) mod 7 - 7) * 86400"
    by (simp add: lastCompletedMonday_def weekMonday_def algebra_simps)
  then show ?thesis by simp
qed

lemma getLastCompletedWeekStart_eq:
  "getLastCompletedWeekStart now = Format_2006_01_02 (lastCompletedMonday now)"
proof -
  define W where "W = (now div 86400 + 4) mod 7"
  define r where "r = (now div 86400 + 3) mod 7"
  have iso: "(if W = 0 then 7 else W) - 1 = r" unfolding W_def r_def by (rule iso_weekday)
  have "AddDate (if Weekday now = 0 then AddDate now 0 0 (- 7) else AddDate now 0 0 (- Weekday now)) 0 0 (- 6) div 86400
      = now div 86400 + (if W = 0 then - 7 else - W) + - 6"
    by (simp only: AddDate_days day_shift Weekday_def W_def [symmetric] if_distrib [of "\<lambda>x. x div 86400"]
        if_distrib [of "\<lambda>x. x + - 6 * 86400"] if_distrib [of "\<lambda>x. x + - 6"] if_distrib [of "\<lambda>x. now div 86400 + x"])
  also have "\<dots> = now div 86400 - r - 7" using iso by (simp split: if_splits)
  also have "\<dots> = lastCompletedMonday now div 86400" by (simp only: lastCompletedMonday_day r_def)
  finally show ?thesis
    unfolding getLastCompletedWeekStart_def Let_def by (rule Format_day)
qed


lemma lastCompletedMonday_props:
  "Weekday (lastCompletedMonday now) = 1"
  "lastCompletedMonday now mod 86400 = 0"
  "lastCompletedMonday now + 7 * 86400 \<le> now"
  "now < lastCompletedMonday now + 14 * 86400"
proof -
  define d where "d = weekMonday now div 86400"
  have "lastCompletedMonday now = weekMonday now + - 7 * 86400" by (simp add: lastCompletedMonday_def)
  then have "lastCompletedMonday now div 86400 = d + - 7" unfolding d_def by (simp only: day_shift)
  then have "Weekday (lastCompletedMonday now) = (d + - 7 + 4) mod 7" by (simp only: Weekday_def)
  also have "d + - 7 + 4 = 7 * (- 1) + (d + 4)" by simp
  also have "(7 * (- 1) + (d + 4)) mod 7 = (d + 4) mod 7" by (simp only: mod_mult_self4)
  also have "\<dots> = 1" using Weekday_weekMonday [of now] by (simp only: Weekday_def d_def)
  finally show "Weekday (lastCompletedMonday now) = 1" .
  have "lastCompletedMonday now = (now div 86400 - (now div 86400 + 3) mod 7 - 7) * 86400"
    by (simp add: lastCompletedMonday_def weekMonday_def algebra_simps)
  then show "lastCompletedMonday now mod 86400 = 0" by simp
  show "lastCompletedMonday now + 7 * 86400 \<le> now" "now < lastCompletedMonday now + 14 * 86400"
    using weekMonday_bounds(1,2) [of now] by (simp_all add: lastCompletedMonday_def)
qed

lemma parseOrZero_Format:
  assumes "fourDigitYear t" "t mod 86400 = 0"
  shows "parseOrZero (Format_2006_01_02 t) = t"
proof -
  have "t div 86400 * 86400 + t mod 86400 = t" by simp
  with assms(2) have "t div 86400 * 86400 = t" by simp
  with Parse_Format [OF assms(1)] show ?thesis by (simp add: parseOrZero_def)
qed

lemma drop_update_here: "k < length xs \<Longrightarrow> drop k (xs[k := x]) = x # drop (Suc k) xs"
  using Cons_nth_drop_Suc [of k "xs[k := x]"] by simp

lemma getLastNWeeks_loop_eq:
  "i \<le> n \<Longrightarrow> length ws = n \<Longrightarrow>
   getLastNWeeks_loop i n t ws =
     map (\<lambda>j. Format_2006_01_02 (t - 7 * 86400 * (int (n - 1 - j) - int i))) [0..<n - i] @ drop (n - i) ws"
proof (induction i n t ws rule: getLastNWeeks_loop.induct)
  case (1 i n t ws)
  show ?case
  proof (cases "i < n")
    case False
    with 1(2) have "i = n" by simp
    then show ?thesis by (subst getLastNWeeks_loop.simps) simp
  next
    case True
    let ?x = "Format_2006_01_02 t"
    have f: "(\<lambda>j. Format_2006_01_02 (AddDate t 0 0 (- 7) - 7 * 86400 * (int (n - 1 - j) - int (i + 1))))
        = (\<lambda>j. Format_2006_01_02 (t - 7 * 86400 * (int (n - 1 - j) - int i)))"
      by (rule ext) (simp add: AddDate_days algebra_simps)
    have k: "n - (i + 1) = n - 1 - i" "Suc (n - 1 - i) = n - i" "n - 1 - i < length ws"
      using True 1(3) by simp_all
    have "getLastNWeeks_loop i n t ws = getLastNWeeks_loop (i + 1) n (AddDate t 0 0 (- 7)) (ws[n - 1 - i := ?x])"
      using True by (subst getLastNWeeks_loop.simps) simp
    also have "\<dots> = map (\<lambda>j. Format_2006_01_02 (t - 7 * 86400 * (int (n - 1 - j) - int i))) [0..<n - 1 - i]
        @ drop (n - 1 - i) (ws[n - 1 - i := ?x])"
      using 1(1) [OF True] True 1(3) by (simp only: f k) simp
    also have "drop (n - 1 - i) (ws[n - 1 - i := ?x]) = ?x # drop (n - i) ws"
      using drop_update_here [OF k(3)] by (simp only: k(2))
    also have "map (\<lambda>j. Format_2006_01_02 (t - 7 * 86400 * (int (n - 1 - j) - int i))) [0..<n - 1 - i] @ ?x # drop (n - i) ws
        = map (\<lambda>j. Format_2006_01_02 (t - 7 * 86400 * (int (n - 1 - j) - int i))) [0..<n - i] @ drop (n - i) ws"
    proof -
      have "[0..<n - i] = [0..<n - 1 - i] @ [n - 1 - i]" using k(2) upt_Suc_append [of 0 "n - 1 - i"] by simp
      moreover have "n - 1 - (n - 1 - i) = i" using True by simp
      ultimately show ?thesis by simp
    qed
    finally show ?thesis .
  qed
qed

text \<open>The text of a date with a four-digit year, digit by digit.\<close>

lemma dc_chars:
  "dc 0 = CHR ''0''" "dc 1 = CHR ''1''" "dc 2 = CHR ''2''" "dc 3 = CHR ''3''" "dc 4 = CHR ''4''"
  "dc (Suc 0) = CHR ''1''"
  "dc 5 = CHR ''5''" "dc 6 = CHR ''6''" "dc 7 = CHR ''7''" "dc 8 = CHR ''8''" "dc 9 = CHR ''9''"
  by (simp_all add: dc_def char_of_eq_iff)

lemma Format_date:
  assumes "civilFromDays (t div 86400) = (y, m, d)" "0 \<le> y" "y \<le> 9999"
  shows "Format_2006_01_02 t =
      [dc (nat y div 1000), dc (nat y div 100 mod 10), dc (nat y div 10 mod 10), dc (nat y mod 10),
       CHR ''-'', dc (nat m div 10), dc (nat m mod 10), CHR ''-'', dc (nat d div 10), dc (nat d mod 10)]"
proof -
  note p = civilFromDays_props [OF assms(1)]
  from p daysIn_le_31 [of m y] have d: "0 \<le> d" "d \<le> 99" and m: "0 \<le> m" "m \<le> 99" by linarith+
  show ?thesis
    by (simp add: Format_2006_01_02_def dateOf_def assms(1) appendInt_4 [OF assms(2,3)] appendInt_2 [OF m] appendInt_2 [OF d])
qed

text \<open>Dates and texts at the instants of the examples.\<close>

lemma civil_2024_03_11: "civilFromDays 19793 = (2024, 3, 11)"
  unfolding civilFromDays_def Let_def by simp

lemma Format_2024_03_11: "Format_2006_01_02 1710115200 = ''2024-03-11''"
  by (subst Format_date [where y = 2024 and m = 3 and d = 11]) (simp_all add: civil_2024_03_11 dc_chars)

lemma civil_2024_03_04: "civilFromDays 19786 = (2024, 3, 4)"
  unfolding civilFromDays_def Let_def by simp

lemma civil_2024_02_26: "civilFromDays 19779 = (2024, 2, 26)"
  unfolding civilFromDays_def Let_def by simp

lemma civil_2024_02_19: "civilFromDays 19772 = (2024, 2, 19)"
  unfolding civilFromDays_def Let_def by simp

lemma Format_2024_03_04: "Format_2006_01_02 1709510400 = ''2024-03-04''"
  by (subst Format_date [where y = 2024 and m = 3 and d = 4]) (simp_all add: civil_2024_03_04 dc_chars)

lemma Format_2024_02_26: "Format_2006_01_02 1708905600 = ''2024-02-26''"
  by (subst Format_date [where y = 2024 and m = 2 and d = 26]) (simp_all add: civil_2024_02_26 dc_chars)

lemma Format_2024_02_19: "Format_2006_01_02 1708300800 = ''2024-02-19''"
  by (subst Format_date [where y = 2024 and m = 2 and d = 19]) (simp_all add: civil_2024_02_19 dc_chars)

lemma fourDigitYear_2024_03_11: "fourDigitYear 1710115200"
  by (simp add: fourDigitYear_def dateOf_def civil_2024_03_11)

lemma upt_4: "[0..<4] = [0, 1, 2, 3]"
  by (simp add: upt_rec)

lemma Date_10000_01_20: "Date 10000 1 20 0 0 0 = 253403942400"
  unfolding Date_def daysFromCivil_def Let_def by simp

lemma Date_10000_01_05: "Date 10000 1 5 0 0 0 = 253402646400"
  unfolding Date_def daysFromCivil_def Let_def by simp

lemma zeroTime_eq: "zeroTime = - 62135596800"
  unfolding zeroTime_def Date_def daysFromCivil_def Let_def by simp

lemma appendInt_10000: "appendInt 10000 4 = ''10000''"
  and appendInt_small: "appendInt 1 2 = ''01''" "appendInt 3 2 = ''03''" "appendInt 5 2 = ''05''" "appendInt 10 2 = ''10''"
  unfolding appendInt_def Let_def by (simp_all add: showNat.simps char_of_eq_iff)

lemma dateOf_10000_01_10: "dateOf 253403078400 = (10000, 1, 10)"
  unfolding dateOf_def civilFromDays_def Let_def by simp

lemma dateOf_10000_01_03: "dateOf 253402473600 = (10000, 1, 3)"
  unfolding dateOf_def civilFromDays_def Let_def by simp

lemma dateOf_10000_01_05: "dateOf 253402646400 = (10000, 1, 5)"
  unfolding dateOf_def civilFromDays_def Let_def by simp

lemma Format_10000_01_10: "Format_2006_01_02 253403078400 = ''10000-01-10''"
  by (simp add: Format_2006_01_02_def dateOf_10000_01_10 appendInt_10000 appendInt_small)

lemma Format_10000_01_03: "Format_2006_01_02 253402473600 = ''10000-01-03''"
  by (simp add: Format_2006_01_02_def dateOf_10000_01_03 appendInt_10000 appendInt_small)

lemma Format_10000_01_05: "Format_2006_01_02 253402646400 = ''10000-01-05''"
  by (simp add: Format_2006_01_02_def dateOf_10000_01_05 appendInt_10000 appendInt_small)

lemma civil_0001_01_01: "civilFromDays (- 719162) = (1, 1, 1)"
  unfolding civilFromDays_def Let_def by simp

lemma civil_0001_01_07: "civilFromDays (- 719156) = (1, 1, 7)"
  unfolding civilFromDays_def Let_def by simp

lemma Format_0001_01_01: "Format_2006_01_02 (- 62135596800) = ''0001-01-01''"
  by (subst Format_date [where y = 1 and m = 1 and d = 1]) (simp_all add: civil_0001_01_01 dc_chars)

lemma Format_0001_01_07: "Format_2006_01_02 (- 62135078400) = ''0001-01-07''"
  by (subst Format_date [where y = 1 and m = 1 and d = 7]) (simp_all add: civil_0001_01_07 dc_chars)

lemma parseOrZero_10000: "parseOrZero ''10000-01-10'' = - 62135596800" "parseOrZero ''10000-01-03'' = - 62135596800"
  by (simp_all add: parseOrZero_def zeroTime_eq)

lemma civil_2024_03_18: "civilFromDays 19800 = (2024, 3, 18)"
  unfolding civilFromDays_def Let_def by simp

lemma getLastNWeeks_every_now:
  assumes "0 \<le> n" "16 * n \<le> maxAlloc"
  shows "getLastNWeeks n now =
    Some (map (\<lambda>j. Format_2006_01_02
                 (parseOrZero (getLastCompletedWeekStart now) - 7 * 86400 * int (nat n - 1 - j))) [0..<nat n])"
proof -
  define t where "t = parseOrZero (getLastCompletedWeekStart now)"
  have "getLastNWeeks_loop 0 (nat n) t (replicate (nat n) '''') =
      map (\<lambda>j. Format_2006_01_02 (t - 7 * 86400 * (int (nat n - 1 - j) - int 0))) [0..<nat n - 0]
        @ drop (nat n - 0) (replicate (nat n) '''')"
    by (rule getLastNWeeks_loop_eq) simp_all
  then show ?thesis using assms by (simp add: getLastNWeeks_def Let_def t_def)
qed

lemma getLastNWeeks_eq:
  assumes "0 \<le> n" "16 * n \<le> maxAlloc" "fourDigitYear (lastCompletedMonday now)"
  shows "getLastNWeeks n now =
    Some (map (\<lambda>j. Format_2006_01_02 (lastCompletedMonday now - 7 * 86400 * int (nat n - 1 - j))) [0..<nat n])"
proof -
  have t: "parseOrZero (getLastCompletedWeekStart now) = lastCompletedMonday now"
    unfolding getLastCompletedWeekStart_eq
    by (rule parseOrZero_Format [OF assms(3) lastCompletedMonday_props(2)])
  show ?thesis using getLastNWeeks_every_now [OF assms(1,2), of now] by (simp only: t)
qed

lemma dateOf_10000_01_09: "dateOf 253402992000 = (10000, 1, 9)"
  unfolding dateOf_def civilFromDays_def Let_def by simp

lemma appendInt_09: "appendInt 9 2 = ''09''"
  unfolding appendInt_def Let_def by (simp add: showNat.simps char_of_eq_iff)

lemma Format_10000_01_09: "Format_2006_01_02 253402992000 = ''10000-01-09''"
  by (simp add: Format_2006_01_02_def dateOf_10000_01_09 appendInt_10000 appendInt_small appendInt_09)

section \<open>The digits written for a number denote it\<close>

lemma showNat_digits: "list_all isDigit (showNat n)"
proof (induction n rule: showNat.induct)
  case (1 n)
  show ?case
  proof (cases "n < 10")
    case True
    then show ?thesis by (subst showNat_dc) (simp add: isDigit_dc)
  next
    case False
    have "n mod 10 < 10" by simp
    with False 1 show ?thesis by (subst showNat_dc) (simp add: isDigit_dc)
  qed
qed

lemma readNat_showNat: "readNat (showNat n) = n"
proof (induction n rule: showNat.induct)
  case (1 n)
  show ?case
  proof (cases "n < 10")
    case True
    then show ?thesis by (subst showNat_dc) (simp add: readNat_def digit_dc)
  next
    case False
    then have ih: "foldl (\<lambda>a c. 10 * a + nat (digit c)) 0 (showNat (n div 10)) = n div 10"
      using 1 by (simp add: readNat_def)
    have "n mod 10 < 10" by simp
    then have d: "nat (digit (dc (n mod 10))) = n mod 10" by (simp add: digit_dc)
    from False show ?thesis by (subst showNat_dc) (simp add: readNat_def ih d)
  qed
qed

lemma showNat_head: "\<exists>c r. showNat n = c # r \<and> c \<noteq> CHR ''-''"
proof -
  from length_showNat_pos [of n] obtain c r where s: "showNat n = c # r" by (cases "showNat n") simp_all
  from showNat_digits [of n] s have "isDigit c" by simp
  then have "c \<noteq> CHR ''-''" by (auto simp: isDigit_def)
  with s show ?thesis by blast
qed

lemma showNat_leading:
  "hd (showNat n) = CHR ''0'' \<Longrightarrow> showNat n = ''0''"
proof (induction n rule: showNat.induct)
  case (1 n)
  show ?case
  proof (cases "n < 10")
    case True
    with 1(2) have "dc n = dc 0" by (subst (asm) showNat_dc) (simp add: dc_0)
    then have "(of_char (dc n) :: nat) = of_char (dc 0)" by simp
    with True have "n = 0" by (simp add: of_char_dc)
    then show ?thesis by (simp add: showNat_1 dc_0)
  next
    case False
    from length_showNat_pos [of "n div 10"] have ne: "showNat (n div 10) \<noteq> []" by auto
    from False 1(2) ne have "hd (showNat (n div 10)) = CHR ''0''" by (subst (asm) showNat_dc) simp
    with 1(1) False have "showNat (n div 10) = ''0''" by simp
    then have "readNat (showNat (n div 10)) = 0" by (simp add: readNat_def digit_def)
    then have "n div 10 = 0" by (simp only: readNat_showNat)
    with False show ?thesis by simp
  qed
qed

lemma digitsValue_showNat: "digitsValue (showNat n) = Some n"
proof -
  from length_showNat_pos [of n] have "showNat n \<noteq> []" by auto
  then show ?thesis
    using showNat_leading [of n] by (auto simp add: digitsValue_def showNat_digits readNat_showNat)
qed

lemma decimalValue_showInt: "decimalValue (showInt i) = Some i"
proof (cases "i < 0")
  case True
  then show ?thesis by (simp add: decimalValue_def showInt_def digitsValue_showNat)
next
  case False
  obtain c r where s: "showNat (nat i) = c # r" "c \<noteq> CHR ''-''" using showNat_head by blast
  have "digitsValue (c # r) = Some (nat i)" using digitsValue_showNat [of "nat i"] by (simp only: s)
  then show ?thesis using False s by (simp add: decimalValue_def showInt_def)
qed

lemma showInt_no_space: "CHR '' '' \<notin> set (showInt i)"
proof
  assume a: "CHR '' '' \<in> set (showInt i)"
  have "list_all isDigit (showNat n)" for n by (rule showNat_digits)
  then have "\<forall>c \<in> set (showNat n). isDigit c" for n by (simp add: list_all_iff)
  moreover have "\<not> isDigit (CHR '' '')" by (simp add: isDigit_def)
  ultimately have "CHR '' '' \<notin> set (showNat n)" for n by blast
  with a show False by (simp add: showInt_def split: if_splits)
qed

section \<open>Properties of the float64 operations\<close>

lemma roundHalfEven_of_int [simp]: "roundHalfEven (of_int k) = k"
  by (simp add: roundHalfEven_def)

lemma roundHalfEven_ge:
  assumes "of_int k \<le> x"
  shows "k \<le> roundHalfEven x"
proof -
  from assms have "k \<le> \<lfloor>x\<rfloor>" by (simp add: le_floor_iff)
  then show ?thesis by (simp add: roundHalfEven_def Let_def)
qed

lemma bitLength_bounds:
  "0 < n \<Longrightarrow> 2 ^ (bitLength n - 1) \<le> n \<and> n < 2 ^ bitLength n"
proof (induction n rule: bitLength.induct)
  case (1 n)
  show ?case
  proof (cases "n div 2 = 0")
    case True
    with 1(2) have "n = 1" by (simp add: div_eq_0_iff)
    then show ?thesis by (simp add: bitLength.simps)
  next
    case False
    with 1 have ih: "2 ^ (bitLength (n div 2) - 1) \<le> n div 2" "n div 2 < 2 ^ bitLength (n div 2)" by simp_all
    have b: "bitLength n = Suc (bitLength (n div 2))" using 1(2) by (subst bitLength.simps) simp
    have pos: "0 < bitLength (n div 2)" using False by (subst bitLength.simps) simp
    then have s: "Suc (bitLength (n div 2) - 1) = bitLength (n div 2)" by simp
    have "2 * 2 ^ (bitLength (n div 2) - 1) \<le> 2 * (n div 2)" using ih(1) by simp
    also have "\<dots> \<le> n" by simp
    finally have lo: "2 ^ bitLength (n div 2) \<le> n" using s by (metis power_Suc)
    have "n < 2 * (n div 2) + 2" by presburger
    also have "\<dots> \<le> 2 * 2 ^ bitLength (n div 2)" using ih(2) by simp
    finally have hi: "n < 2 ^ Suc (bitLength (n div 2))" by simp
    from lo hi show ?thesis by (simp add: b)
  qed
qed

lemma ilog2_ge1:
  assumes "1 \<le> x"
  shows "2 powi ilog2 x \<le> x" and "0 \<le> ilog2 x"
proof -
  define n where "n = nat \<lfloor>x\<rfloor>"
  from assms have "1 \<le> \<lfloor>x\<rfloor>" by (simp add: le_floor_iff)
  then have n: "0 < n" "int n = \<lfloor>x\<rfloor>" by (simp_all add: n_def)
  from bitLength_bounds [OF n(1)] have lo: "2 ^ (bitLength n - 1) \<le> n" by simp
  have pos: "0 < bitLength n" using n(1) by (subst bitLength.simps) simp
  then have e: "ilog2 x = int (bitLength n - 1)" using assms by (simp add: ilog2_def n_def of_nat_diff)
  then show "0 \<le> ilog2 x" by simp
  from lo have "(2 :: int) ^ (bitLength n - 1) \<le> int n" by (metis of_nat_le_iff of_nat_numeral of_nat_power)
  then have "(2 :: int) ^ (bitLength n - 1) \<le> \<lfloor>x\<rfloor>" by (simp add: n(2))
  then have "of_int ((2 :: int) ^ (bitLength n - 1)) \<le> x" by (simp only: le_floor_iff)
  then show "2 powi ilog2 x \<le> x" by (simp add: e power_int_def)
qed

lemma fl64_nonneg: "0 \<le> x \<Longrightarrow> 0 \<le> fl64 x"
proof -
  assume x: "0 \<le> x"
  have u: "(0 :: rat) < 2 powi k" for k by (simp add: power_int_def)
  have "0 \<le> roundHalfEven (\<bar>x\<bar> / 2 powi (ilog2 \<bar>x\<bar> - 52))"
    by (rule roundHalfEven_ge) (simp add: u less_imp_le)
  with x u show ?thesis by (simp add: fl64_def Let_def sgn_if less_imp_le)
qed

lemma fl64_pos:
  assumes "1 \<le> x"
  shows "0 < fl64 x"
proof -
  have u: "(0 :: rat) < 2 powi k" for k by (simp add: power_int_def)
  from assms have a: "\<bar>x\<bar> = x" "x \<noteq> 0" "sgn x = 1" by simp_all
  note l = ilog2_ge1 [OF assms]
  have "(2 :: rat) powi (ilog2 x - 52) \<le> 2 powi ilog2 x"
    by (rule power_int_increasing) simp_all
  also have "\<dots> \<le> x" by (rule l(1))
  finally have "of_int 1 \<le> x / 2 powi (ilog2 x - 52)" using u [of "ilog2 x - 52"] by (simp add: le_divide_eq)
  then have "1 \<le> roundHalfEven (x / 2 powi (ilog2 x - 52))" by (rule roundHalfEven_ge)
  then have "(0 :: rat) < of_int (roundHalfEven (x / 2 powi (ilog2 x - 52)))" by simp
  with u show ?thesis by (simp add: fl64_def Let_def a)
qed


lemma ilog2_of_nat:
  assumes "0 < m"
  shows "ilog2 (of_int (int m)) = int (bitLength m) - 1"
proof -
  have "(1 :: rat) \<le> of_int (int m)" using assms by simp
  moreover have "nat \<lfloor>of_int (int m) :: rat\<rfloor> = m" by simp
  ultimately show ?thesis by (simp only: ilog2_def if_True)
qed

lemma scale_exact:
  "roundHalfEven (of_int a / (inverse 2 ^ j)) = a * 2 ^ j"
proof -
  have "of_int a / (inverse 2 ^ j :: rat) = of_int (a * 2 ^ j)"
    by (simp add: power_one_over)
  then show ?thesis by (simp only: roundHalfEven_of_int)
qed

lemma fl64_of_int:
  assumes "\<bar>k\<bar> < 2 ^ 53"
  shows "fl64 (of_int k) = of_int k"
proof (cases "k = 0")
  case True
  then show ?thesis by (simp add: fl64_def)
next
  case False
  define m where "m = nat \<bar>k\<bar>"
  have m: "0 < m" "int m = \<bar>k\<bar>" "m < 2 ^ 53" using False assms by (simp_all add: m_def nat_less_iff)
  have x: "\<bar>of_int k :: rat\<bar> = of_int (int m)" by (simp add: m(2))
  note b = bitLength_bounds [OF m(1)]
  have pos: "0 < bitLength m" using m(1) by (subst bitLength.simps) simp
  from b m(3) have "(2 :: nat) ^ (bitLength m - 1) < 2 ^ 53" by linarith
  then have e53: "bitLength m - 1 < 53" by (simp only: power_strict_increasing_iff)
  define j where "j = 52 - (bitLength m - 1)"
  have "int j = 53 - int (bitLength m)" using e53 pos unfolding j_def by linarith
  then have e: "ilog2 (of_int (int m)) - 52 = - int j" by (simp only: ilog2_of_nat [OF m(1)])
  have u: "(2 :: rat) powi (- int j) = inverse 2 ^ j" by (simp add: power_int_def)
  have c: "(of_int (int m * 2 ^ j) :: rat) * inverse 2 ^ j = of_int (int m)"
    by (simp add: power_one_over)
  have nz: "(of_int k :: rat) \<noteq> 0" using False by simp
  have "fl64 (of_int k) = sgn (of_int k) * of_int (int m * 2 ^ j) * inverse 2 ^ j"
    unfolding fl64_def Let_def x e u scale_exact using nz by (simp only: if_False)
  also have "\<dots> = sgn (of_int k) * (of_int (int m * 2 ^ j) * inverse 2 ^ j)" by (simp only: mult.assoc)
  also have "\<dots> = sgn (of_int k) * of_int (int m)" by (simp only: c)
  also have "\<dots> = of_int k" by (simp add: m(2) sgn_if)
  finally show ?thesis .
qed

lemma fl64_1 [simp]: "fl64 1 = 1" and fl64_30 [simp]: "fl64 30 = 30"
  using fl64_of_int [of 1] fl64_of_int [of 30] by simp_all

lemma float64_pos:
  assumes "0 <s n"
  shows "0 < float64 n"
proof -
  from assms have "1 \<le> sint n" by (simp add: word_sless_alt)
  then have "(1 :: rat) \<le> of_int (sint n)" by (simp only: of_int_1_le_iff)
  then show ?thesis unfolding float64_def by (rule fl64_pos)
qed

lemma barLength_ge_1:
  assumes "0 <s count" "0 <s maxCount"
  shows "1 \<le> barLength count maxCount"
proof -
  from float64_pos [OF assms(1)] float64_pos [OF assms(2)]
  have "0 \<le> float64 count / float64 maxCount" by simp
  then have "0 \<le> fdiv (float64 count) (float64 maxCount)" unfolding fdiv_def by (rule fl64_nonneg)
  then have "0 \<le> fdiv (float64 count) (float64 maxCount) * 30" by simp
  then have "0 \<le> fmul (fdiv (float64 count) (float64 maxCount)) 30" unfolding fmul_def by (rule fl64_nonneg)
  then show ?thesis by (simp add: barLength_def intOfFloat_def)
qed

lemma barLength_max:
  assumes "0 <s maxCount"
  shows "barLength maxCount maxCount = 31"
proof -
  from float64_pos [OF assms] have "float64 maxCount / float64 maxCount = 1" by simp
  then show ?thesis by (simp add: barLength_def fdiv_def fmul_def intOfFloat_def)
qed

section \<open>Properties of the histogram\<close>

lemma collectCounts_fold:
  "fold (\<lambda>week (counts, maxCount).
             (let count = lookup weekTotals week
              in (counts @ [count], if maxCount <s count then count else maxCount))) ws (cs, mx)
   = (cs @ map (lookup weekTotals) ws,
      fold (\<lambda>count maxCount. if maxCount <s count then count else maxCount) (map (lookup weekTotals) ws) mx)"
  by (induction ws arbitrary: cs mx) (simp_all add: Let_def)

lemma maxOver_simps [simp]:
  "maxOver [] mx = mx"
  "maxOver (c # cs) mx = maxOver cs (if mx <s c then c else mx)"
  by (simp_all add: maxOver_def)

lemma maxOver_ge: "mx \<le>s maxOver cs mx"
proof (induction cs arbitrary: mx)
  case Nil
  show ?case by (simp add: word_sle_eq)
next
  case (Cons c cs)
  have "mx \<le>s (if mx <s c then c else mx)" by (simp add: word_sle_eq word_sless_alt)
  with Cons [of "if mx <s c then c else mx"] show ?case
    by (simp only: maxOver_simps word_sle_eq)
qed

lemma maxOver_upper: "c \<in> set cs \<Longrightarrow> c \<le>s maxOver cs mx"
proof (induction cs arbitrary: mx)
  case Nil
  then show ?case by simp
next
  case (Cons a cs)
  show ?case
  proof (cases "c = a")
    case True
    have "a \<le>s (if mx <s a then a else mx)" by (simp add: word_sle_eq word_sless_alt)
    with maxOver_ge [of "if mx <s a then a else mx" cs] True show ?thesis
      by (simp only: maxOver_simps word_sle_eq)
  next
    case False
    with Cons.prems have "c \<in> set cs" by simp
    from Cons.IH [OF this] show ?thesis by simp
  qed
qed

lemma maxOver_zero: "(\<forall>c \<in> set cs. c \<le>s 0) \<Longrightarrow> maxOver cs 0 = 0"
proof (induction cs)
  case Nil
  show ?case by simp
next
  case (Cons a cs)
  then have "\<not> 0 <s a" by (simp add: word_sle_eq word_sless_alt)
  with Cons show ?case by simp
qed

lemma collectCounts_eq:
  "collectCounts weekTotals ws = (map (lookup weekTotals) ws, maxOver (map (lookup weekTotals) ws) 0)"
  by (simp add: collectCounts_def collectCounts_fold maxOver_def)

lemma breakdownLine_eq:
  assumes "0 <s maxCount"
  shows "breakdownLine maxCount week count = Some (breakdownText maxCount week count)"
proof (cases "0 <s count")
  case True
  from barLength_ge_1 [OF True assms] have "\<not> barLength count maxCount < 0" by simp
  with True show ?thesis by (simp add: breakdownLine_def breakdownText_def RepeatInt_def)
next
  case False
  then show ?thesis by (simp add: breakdownLine_def breakdownText_def)
qed

lemma breakdown_eq:
  assumes "0 <s maxCount"
  shows "breakdown maxCount counts xs (out, tot) =
     Some (out @ concat (map (\<lambda>(i, week). breakdownText maxCount week (counts ! i)) xs),
           tot + sum_list (map (\<lambda>(i, week). counts ! i) xs))"
proof (induction xs arbitrary: out tot)
  case Nil
  show ?case by simp
next
  case (Cons x xs)
  obtain i week where x: "x = (i, week)" by (cases x)
  show ?case
    by (simp add: x Let_def breakdownLine_eq [OF assms] Cons.IH add.assoc)
qed

lemma enumerate_map_nth:
  "map (\<lambda>(i, week). f week (map g ws ! i)) (enumerate 0 ws) = map (\<lambda>week. f week (g week)) ws"
  by (rule nth_equalityI) (simp_all add: nth_enumerate_eq)

lemma maxOver_pos:
  assumes "maxOver cs 0 \<noteq> 0"
  shows "0 <s maxOver cs 0"
proof -
  from maxOver_ge [of 0 cs] have "0 \<le> sint (maxOver cs 0)" by (simp add: word_sle_eq)
  moreover from assms have "sint (maxOver cs 0) \<noteq> 0" by (metis signed_0 signed_word_eqI sint_0)
  ultimately show ?thesis by (simp add: word_sless_alt)
qed

lemma roundHalfEven_le:
  assumes "x \<le> of_int k"
  shows "roundHalfEven x \<le> k"
proof (cases "x = of_int k")
  case True
  then show ?thesis by simp
next
  case False
  with assms have "x < of_int k" by simp
  then have "\<lfloor>x\<rfloor> < k" by (simp add: floor_less_iff)
  then show ?thesis by (simp add: roundHalfEven_def Let_def)
qed

lemma ilog2_le_52:
  assumes "0 < x" "x < 2 ^ 53"
  shows "ilog2 x \<le> 52"
proof (cases "1 \<le> x")
  case True
  define n where "n = nat \<lfloor>x\<rfloor>"
  from True have "1 \<le> \<lfloor>x\<rfloor>" by (simp add: le_floor_iff)
  then have n: "0 < n" "int n = \<lfloor>x\<rfloor>" by (simp_all add: n_def)
  from assms(2) have "\<lfloor>x\<rfloor> < 2 ^ 53" by (simp add: floor_less_iff)
  with n(2) have "int n < 2 ^ 53" by simp
  then have n53: "n < 2 ^ 53" by (metis of_nat_less_iff of_nat_numeral of_nat_power)
  from bitLength_bounds [OF n(1)] n53 have "(2 :: nat) ^ (bitLength n - 1) < 2 ^ 53" by linarith
  then have "bitLength n - 1 < 53" by (simp only: power_strict_increasing_iff)
  then have "int (bitLength n) - 1 \<le> 52" by linarith
  with True show ?thesis by (simp add: ilog2_def n_def)
next
  case False
  define k where "k = int (bitLength (nat \<lfloor>1 / x\<rfloor>)) - 1"
  have "- 1 \<le> k" by (simp add: k_def)
  then have "- k \<le> 52" "- k - 1 \<le> 52" by linarith+
  with False show ?thesis by (simp add: ilog2_def Let_def k_def [symmetric])
qed

lemma fl64_le:
  assumes "0 < x" "x \<le> of_int N" "x < 2 ^ 53"
  shows "fl64 x \<le> of_int N"
proof -
  define j where "j = nat (52 - ilog2 x)"
  from ilog2_le_52 [OF assms(1,3)] have e: "ilog2 x - 52 = - int j" by (simp add: j_def)
  have u: "(2 :: rat) powi (- int j) = inverse 2 ^ j" by (simp add: power_int_def)
  have p: "(0 :: rat) < inverse 2 ^ j" by simp
  have d: "x / inverse 2 ^ j = x * 2 ^ j" by (simp add: power_one_over)
  from assms(2) have "x * 2 ^ j \<le> of_int N * 2 ^ j" by simp
  then have "x / inverse 2 ^ j \<le> of_int (N * 2 ^ j)" by (simp only: d of_int_mult of_int_power of_int_numeral)
  then have "roundHalfEven (x / inverse 2 ^ j) \<le> N * 2 ^ j" by (rule roundHalfEven_le)
  then have "(of_int (roundHalfEven (x / inverse 2 ^ j)) :: rat) \<le> of_int (N * 2 ^ j)" by (simp only: of_int_le_iff)
  then have "of_int (roundHalfEven (x / inverse 2 ^ j)) * inverse 2 ^ j \<le> (of_int (N * 2 ^ j) :: rat) * inverse 2 ^ j"
    using p by (simp only: mult_le_cancel_right_pos)
  also have "(of_int (N * 2 ^ j) :: rat) * inverse 2 ^ j = of_int N" by (simp add: power_one_over)
  finally have r: "of_int (roundHalfEven (x / inverse 2 ^ j)) * inverse 2 ^ j \<le> (of_int N :: rat)" .
  from assms(1) have a: "\<bar>x\<bar> = x" "x \<noteq> 0" "sgn x = 1" by simp_all
  show ?thesis unfolding fl64_def Let_def a e u using r a(2) by simp
qed

lemma float64_exact:
  assumes "0 <s n" "sint n < 2 ^ 53"
  shows "float64 n = of_int (sint n)"
proof -
  from assms(1) have "0 < sint n" by (simp add: word_sless_alt)
  with assms(2) have "\<bar>sint n\<bar> < 2 ^ 53" by simp
  then show ?thesis unfolding float64_def by (rule fl64_of_int)
qed

lemma barLength_le_31:
  assumes "0 <s count" "count \<le>s maxCount" "sint maxCount < 2 ^ 53"
  shows "barLength count maxCount \<le> 31"
proof -
  from assms have c: "0 < sint count" "sint count \<le> sint maxCount" "sint count < 2 ^ 53"
    by (simp_all add: word_sless_alt word_sle_eq)
  then have m: "0 <s maxCount" by (simp add: word_sless_alt)
  define a where "a = sint count"
  define b where "b = sint maxCount"
  define q where "q = (of_int a :: rat) / of_int b"
  from c have ab: "0 < a" "a \<le> b" by (simp_all add: a_def b_def)
  then have "(0 :: rat) < of_int a" "(of_int a :: rat) \<le> of_int b" "(0 :: rat) < of_int b" by simp_all
  then have q: "0 < q" "q \<le> 1" by (simp_all add: q_def)
  have f: "fdiv (float64 count) (float64 maxCount) = fl64 q"
    unfolding fdiv_def float64_exact [OF assms(1) c(3)] float64_exact [OF m assms(3)] q_def a_def b_def ..
  have "fl64 q \<le> of_int 1" by (rule fl64_le) (use q in simp_all)
  then have q1: "fl64 q \<le> 1" by simp
  have "0 \<le> fl64 q" by (rule fl64_nonneg) (use q in simp)
  show ?thesis
  proof (cases "fl64 q = 0")
    case True
    then show ?thesis by (simp add: barLength_def f fmul_def intOfFloat_def fl64_def)
  next
    case False
    with \<open>0 \<le> fl64 q\<close> have pos: "0 < fl64 q * 30" by simp
    have "fl64 (fl64 q * 30) \<le> of_int 30" by (rule fl64_le) (use pos q1 in simp_all)
    then have "\<lfloor>fl64 (fl64 q * 30)\<rfloor> \<le> 30" by (simp add: floor_le_iff)
    moreover have "0 \<le> fl64 (fl64 q * 30)" by (rule fl64_nonneg) (use pos in simp)
    ultimately show ?thesis by (simp add: barLength_def f fmul_def intOfFloat_def)
  qed
qed

lemma maxOver_mem: "maxOver cs mx = mx \<or> maxOver cs mx \<in> set cs"
proof (induction cs arbitrary: mx)
  case Nil
  show ?case by simp
next
  case (Cons a cs)
  from Cons [of "if mx <s a then a else mx"] show ?case by (auto split: if_splits)
qed

lemma lookup_cases:
  "lookup m k = (case m k of None \<Rightarrow> 0 | Some c \<Rightarrow> c)"
  by (simp add: lookup_def)

lemma printHistogram_eq:
  assumes "aggregateWeeks metrics = Some weekTotals"
  shows "printHistogram now metrics =
    (let ws = getLast26Weeks now; counts = map (lookup weekTotals) ws; maxCount = maxOver counts 0
     in if maxCount = 0 then Some (''No applications in the last 6 months'' @ nl)
        else Some (histogramHead ws counts maxCount
               @ concat (map (\<lambda>week. breakdownText maxCount week (lookup weekTotals week)) ws)
               @ nl @ ''  Total: '' @ showInt (sint (sum_list counts)) @ '' applicants over 26 weeks'' @ nl
               @ ''  Average: '' @ fmtF1 (fdiv (float64 (sum_list counts)) 26) @ '' applicants/week'' @ nl))"
proof (cases "maxOver (map (lookup weekTotals) (getLast26Weeks now)) 0 = 0")
  case True
  then show ?thesis by (simp add: printHistogram_def assms collectCounts_eq Let_def)
next
  case False
  define ws where "ws = getLast26Weeks now"
  define m where "m = maxOver (map (lookup weekTotals) ws) 0"
  from False have pos: "0 <s m" unfolding m_def ws_def by (rule maxOver_pos)
  have s: "map (\<lambda>(i, week). map (lookup weekTotals) ws ! i) (enumerate 0 ws) = map (lookup weekTotals) ws"
    using enumerate_map_nth [of "\<lambda>week c. c" "lookup weekTotals" ws] by simp
  have b: "breakdown m (map (lookup weekTotals) ws) (enumerate 0 ws) (out, 0) =
      Some (out @ concat (map (\<lambda>week. breakdownText m week (lookup weekTotals week)) ws),
            sum_list (map (lookup weekTotals) ws))" for out
    by (simp add: breakdown_eq [OF pos] enumerate_map_nth s)
  from False show ?thesis
    by (simp add: printHistogram_def assms collectCounts_eq Let_def ws_def [symmetric] m_def [symmetric] b)
qed

lemma last_week_mem:
  assumes "fourDigitYear (lastCompletedMonday now)"
  shows "getLastCompletedWeekStart now \<in> set (getLast26Weeks now)"
proof -
  have a: "(0 :: int) \<le> 26" "16 * 26 \<le> maxAlloc" by (simp_all add: maxAlloc_def)
  have u: "(25 :: nat) \<in> set [0..<nat 26]" by simp
  have "Format_2006_01_02 (lastCompletedMonday now - 7 * 86400 * int (nat 26 - 1 - 25))
      \<in> set (map (\<lambda>j. Format_2006_01_02 (lastCompletedMonday now - 7 * 86400 * int (nat 26 - 1 - j))) [0..<nat 26])"
    using u by (simp only: set_map) (rule imageI)
  moreover have "int (nat 26 - 1 - 25) = 0" by simp
  ultimately show ?thesis
    by (simp only: getLast26Weeks_def getLastNWeeks_eq [OF a assms] option.sel getLastCompletedWeekStart_eq) simp
qed

lemma formatWeekEnd_2024_03_11: "formatWeekEnd ''2024-03-11'' = ''Mar 17''"
proof -
  have "parseOrZero (Format_2006_01_02 1710115200) = 1710115200"
    by (rule parseOrZero_Format) (simp_all add: fourDigitYear_2024_03_11)
  then have p: "parseOrZero ''2024-03-11'' = 1710115200" by (simp only: Format_2024_03_11)
  have d: "dateOf 1710633600 = (2024, 3, 17)"
    unfolding dateOf_def civilFromDays_def Let_def by simp
  have a: "appendInt 17 2 = ''17''"
    unfolding appendInt_def Let_def by (simp add: showNat.simps char_of_eq_iff)
  show ?thesis
    by (simp add: formatWeekEnd_def Let_def p AddDate_days Format_Jan_02_def d a shortMonthNames_def)
qed

lemma fmtD_3_7: "fmtD 3 7 = ''  7''"
  by (simp add: fmtD_eq showInt_def showNat_1 dc_chars spaces_def replicate_2)


lemma aggregateWeeks_loop_Some:
  "(\<exists>weekTotals'. aggregateWeeks_loop metrics weekTotals = Some weekTotals') \<longleftrightarrow> (\<forall>p \<in> set metrics. snd p \<noteq> None)"
  by (induction metrics weekTotals rule: aggregateWeeks_loop.induct) simp_all

lemma aggregateWeeks_Some:
  "(\<exists>weekTotals. aggregateWeeks metrics = Some weekTotals) \<longleftrightarrow> (\<forall>p \<in> set metrics. snd p \<noteq> None)"
  by (simp only: aggregateWeeks_def aggregateWeeks_loop_Some)

section \<open>Properties of the grouped table\<close>

lemma lookup_addCount:
  "lookup (addCount w c m) k = (if k = w then lookup m w + c else lookup m k)"
  by (simp add: lookup_def addCount_def)

lemma fold_pair_addCount:
  "fold (\<lambda>week (weekTotals, deptWeekTotals).
           (let count = f week
            in (addCount week count weekTotals, addCount week count deptWeekTotals))) ws (wt, dt)
   = (fold (\<lambda>week. addCount week (f week)) ws wt, fold (\<lambda>week. addCount week (f week)) ws dt)"
  by (induction ws arbitrary: wt dt) (simp_all add: Let_def)

lemma fold_pair_addCount_unfolded:
  "fold (\<lambda>week (weekTotals, deptWeekTotals).
           (addCount week (f week) weekTotals, addCount week (f week) deptWeekTotals)) ws (wt, dt)
   = (fold (\<lambda>week. addCount week (f week)) ws wt, fold (\<lambda>week. addCount week (f week)) ws dt)"
  using fold_pair_addCount [of f ws wt dt] by (simp add: Let_def)

lemma lookup_empty: "lookup Map.empty k = 0"
  by (simp add: lookup_def)

lemma lookup_fold_addCount:
  "distinct ws \<Longrightarrow>
   lookup (fold (\<lambda>week. addCount week (f week)) ws m) k = lookup m k + (if k \<in> set ws then f k else 0)"
proof (induction ws arbitrary: m)
  case Nil
  show ?case by simp
next
  case (Cons w ws)
  then show ?case by (auto simp add: lookup_addCount)
qed

lemma lookup_jobCounts: "lookup (jobCounts job) = countOf job"
  by (rule ext) (simp add: lookup_def jobCounts_def countOf_def)

lemma lookup_accumulate:
  assumes "distinct ws" "currentWeek \<notin> set ws" "k \<in> set ws \<or> k = currentWeek"
  shows "lookup (accumulate ws currentWeek job m) k = lookup m k + countOf job k"
  using assms by (auto simp add: accumulate_def lookup_addCount lookup_fold_addCount lookup_jobCounts)

lemma lookup_fold_accumulate:
  assumes "distinct ws" "currentWeek \<notin> set ws" "k \<in> set ws \<or> k = currentWeek"
  shows "lookup (fold (accumulate ws currentWeek) jobs m) k = lookup m k + childrenSum jobs k"
proof (induction jobs arbitrary: m)
  case Nil
  show ?case by (simp add: childrenSum_def)
next
  case (Cons job jobs)
  show ?case
    by (simp add: Cons.IH lookup_accumulate [OF assms] childrenSum_def add.assoc)
qed

lemma callPrintRow_eq:
  "callPrintRow (newWeeklyTable 35 10 ws) label m currentWeek out = out @ rowText ws currentWeek label (lookup m)"
  by (simp add: callPrintRow_def printRow_def Let_def fold_printRow_step Print_cell rowText_def newWeeklyTable_def)

lemma rowText_cong:
  assumes "\<And>k. k \<in> set ws \<or> k = currentWeek \<Longrightarrow> f k = g k"
  shows "rowText ws currentWeek label f = rowText ws currentWeek label g"
proof -
  have a: "map (\<lambda>week. countCell 10 (f week)) ws = map (\<lambda>week. countCell 10 (g week)) ws"
    by (rule map_cong [OF refl]) (simp add: assms)
  have b: "map f ws = map g ws" by (rule map_cong [OF refl]) (simp add: assms)
  have c: "f currentWeek = g currentWeek" by (simp add: assms)
  show ?thesis unfolding rowText_def a b c ..
qed

lemma jobStep_eq:
  "jobStep (newWeeklyTable 35 10 ws) ws currentWeek job (out, wt, dt) =
     (out @ rowText ws currentWeek (displayTitle (newWeeklyTable 35 10 ws) (Title job)) (countOf job),
      accumulate ws currentWeek job wt, accumulate ws currentWeek job dt)"
  by (simp add: jobStep_def Let_def callPrintRow_eq fold_pair_addCount_unfolded accumulate_def lookup_jobCounts)

lemma fold_jobStep:
  "fold (jobStep (newWeeklyTable 35 10 ws) ws currentWeek) jobs (out, wt, dt) =
     (out @ concat (map (\<lambda>job. rowText ws currentWeek (displayTitle (newWeeklyTable 35 10 ws) (Title job)) (countOf job)) jobs),
      fold (accumulate ws currentWeek) jobs wt, fold (accumulate ws currentWeek) jobs dt)"
  by (induction jobs arbitrary: out wt dt) (simp_all add: jobStep_eq)

lemma deptStep_eq:
  assumes "distinct ws" "currentWeek \<notin> set ws"
  shows "deptStep (newWeeklyTable 35 10 ws) ws currentWeek deptJobs dept (out, wt) =
     (out @ deptBlock ws currentWeek dept (jobsOf deptJobs dept),
      fold (accumulate ws currentWeek) (jobsOf deptJobs dept) wt)"
proof -
  have "rowText ws currentWeek ''  Subtotal'' (lookup (fold (accumulate ws currentWeek) (jobsOf deptJobs dept) Map.empty))
      = rowText ws currentWeek ''  Subtotal'' (childrenSum (jobsOf deptJobs dept))"
    by (rule rowText_cong) (simp only: lookup_fold_accumulate [OF assms] lookup_empty add_0)
  then show ?thesis
    by (simp add: deptStep_def Let_def fold_jobStep callPrintRow_eq deptBlock_def)
qed

lemma fold_deptStep:
  assumes "distinct ws" "currentWeek \<notin> set ws"
  shows "fst (fold (deptStep (newWeeklyTable 35 10 ws) ws currentWeek deptJobs) depts (out, wt)) =
     out @ concat (map (\<lambda>dept. deptBlock ws currentWeek dept (jobsOf deptJobs dept)) depts)"
  by (induction depts arbitrary: out wt) (simp_all add: deptStep_eq [OF assms])

lemma jobsOf_mapped:
  assumes "dept \<in> set (map fst deptJobs)"
  shows "jobsOf (map (\<lambda>(d, jobs). (d, f jobs)) deptJobs) dept = f (jobsOf deptJobs dept)"
proof -
  from assms obtain jobs where j: "map_of deptJobs dept = Some jobs"
    by (metis image_set map_of_eq_None_iff not_Some_eq)
  then show ?thesis by (simp add: jobsOf_def map_of_map)
qed

lemma jobsOf_update:
  "jobsOf (AList.update k v deptJobs) dept = (if dept = k then v else jobsOf deptJobs dept)"
  by (simp add: jobsOf_def update_conv')

lemma groupJobs_props:
  assumes "groupJobs metrics acc = Some deptJobs" "distinct (map fst acc)"
  shows "distinct (map fst deptJobs)
    \<and> (\<forall>dept. jobsOf deptJobs dept = jobsOf acc dept @ filter (\<lambda>m. Department m = dept) (map (the \<circ> snd) metrics))
    \<and> (\<forall>p \<in> set metrics. snd p \<noteq> None)"
  using assms
proof (induction metrics acc rule: groupJobs.induct)
  case (1 deptJobs')
  then show ?case by simp
next
  case (2 key rest deptJobs')
  then show ?case by simp
next
  case (3 key m rest deptJobs')
  let ?acc = "AList.update (Department m) (jobsOf deptJobs' (Department m) @ [m]) deptJobs'"
  from 3(2) have g: "groupJobs rest ?acc = Some deptJobs" by simp
  from 3(3) have d: "distinct (map fst ?acc)" by (simp add: distinct_update)
  note ih = 3(1) [OF g d]
  show ?case using ih by (auto simp add: jobsOf_update)
qed

lemma printSeparator_eq:
  "stdout (printSeparator currentWeek \<lparr>table = newWeeklyTable 35 10 ws, stdout = out\<rparr>) =
     out @ Repeat ''-'' (35 + 10 * (length ws + (if currentWeek = '''' then 1 else 2))) @ nl"
  by (simp add: printSeparator_def Let_def newWeeklyTable_def Print_def)

lemma printTotalsRow_eq:
  "stdout (printTotalsRow label currentWeek
      \<lparr>table = newWeeklyTable 35 10 ws, stdout = out, weekValues = m, rowTotal = 0\<rparr>) =
     out @ rowText ws currentWeek label (lookup m)"
  by (simp add: printTotalsRow_def Let_def printTotalsRow_step_eq fold_printRow_step Print_cell rowText_def
      newWeeklyTable_def)

lemma fold_deptStep_pair:
  assumes "distinct ws" "currentWeek \<notin> set ws"
  shows "fold (deptStep (newWeeklyTable 35 10 ws) ws currentWeek deptJobs) depts (out, wt) =
     (out @ concat (map (\<lambda>dept. deptBlock ws currentWeek dept (jobsOf deptJobs dept)) depts),
      fold (accumulate ws currentWeek) (concat (map (jobsOf deptJobs) depts)) wt)"
  by (induction depts arbitrary: out wt) (simp_all add: deptStep_eq [OF assms])

lemma printTableGrouped_eq:
  assumes "groupJobs metrics [] = Some deptJobs"
    and "distinct (getLast4Weeks now)"
    and "currentWeek \<notin> set (getLast4Weeks now)"
  shows "printTableGrouped now currentWeek sortSlice metrics =
     Some (stdout (printSeparator currentWeek
                    (printHeader ''Job'' currentWeek
                      \<lparr>table = newWeeklyTable 35 10 (getLast4Weeks now), stdout = ''''\<rparr>))
           @ concat (map (\<lambda>dept. deptBlock (getLast4Weeks now) currentWeek dept (sortSlice (jobsOf deptJobs dept)))
                       (sort (map fst deptJobs)))
           @ Repeat ''-'' (35 + 10 * (length (getLast4Weeks now) + (if currentWeek = '''' then 1 else 2))) @ nl
           @ rowText (getLast4Weeks now) currentWeek ''Total''
               (childrenSum (concat (map (\<lambda>dept. sortSlice (jobsOf deptJobs dept)) (sort (map fst deptJobs))))))"
proof -
  define ws where "ws = getLast4Weeks now"
  define sorted where "sorted = map (\<lambda>(dept, jobs). (dept, sortSlice jobs)) deptJobs"
  define depts where "depts = sort (map fst deptJobs)"
  note a = assms(2,3) [folded ws_def]
  have j: "jobsOf sorted dept = sortSlice (jobsOf deptJobs dept)" if "dept \<in> set depts" for dept
    unfolding sorted_def by (rule jobsOf_mapped) (use that in \<open>simp add: depts_def\<close>)
  have b: "map (\<lambda>dept. deptBlock ws currentWeek dept (jobsOf sorted dept)) depts
      = map (\<lambda>dept. deptBlock ws currentWeek dept (sortSlice (jobsOf deptJobs dept))) depts"
    by (rule map_cong [OF refl]) (simp add: j)
  have c: "map (jobsOf sorted) depts = map (\<lambda>dept. sortSlice (jobsOf deptJobs dept)) depts"
    by (rule map_cong [OF refl]) (simp add: j)
  have t: "rowText ws currentWeek ''Total''
        (lookup (fold (accumulate ws currentWeek) (concat (map (\<lambda>dept. sortSlice (jobsOf deptJobs dept)) depts)) Map.empty))
      = rowText ws currentWeek ''Total''
        (childrenSum (concat (map (\<lambda>dept. sortSlice (jobsOf deptJobs dept)) depts)))"
    by (rule rowText_cong) (simp only: lookup_fold_accumulate [OF a] lookup_empty add_0)
  show ?thesis
    unfolding printTableGrouped_def assms(1) Let_def ws_def [symmetric] option.case
      sorted_def [symmetric] depts_def [symmetric]
    by (simp add: fold_deptStep_pair [OF a] b c printSeparator_eq printTotalsRow_eq t)
qed

lemma Format_inj:
  assumes "fourDigitYear t" "fourDigitYear u" "t mod 86400 = 0" "u mod 86400 = 0"
    and "Format_2006_01_02 t = Format_2006_01_02 u"
  shows "t = u"
proof -
  have a: "parseOrZero (Format_2006_01_02 t) = t" by (rule parseOrZero_Format; fact)
  have b: "parseOrZero (Format_2006_01_02 u) = u" by (rule parseOrZero_Format; fact)
  from a have "parseOrZero (Format_2006_01_02 u) = t" unfolding assms(5) .
  then show ?thesis using b by (rule box_equals [OF refl])
qed

lemma midnight_weeks_before:
  fixes m :: int
  assumes mz: "m mod 86400 = 0"
  shows "(m - 7 * 86400) mod 86400 = 0" "(m - 14 * 86400) mod 86400 = 0" "(m - 21 * 86400) mod 86400 = 0"
proof -
  from mz obtain q where q: "m = 86400 * q" by (auto simp add: mod_eq_0_iff_dvd)
  have "m - 7 * 86400 = 86400 * (q - 7)" "m - 14 * 86400 = 86400 * (q - 14)" "m - 21 * 86400 = 86400 * (q - 21)"
    by (simp_all add: q)
  then show "(m - 7 * 86400) mod 86400 = 0" "(m - 14 * 86400) mod 86400 = 0" "(m - 21 * 86400) mod 86400 = 0"
    by (simp_all only: mod_mult_self1_is_0)
qed

lemma weekMonday_mono:
  assumes "t \<le> u"
  shows "weekMonday t \<le> weekMonday u"
proof -
  define a where "a = t div 86400"
  define b where "b = u div 86400"
  from assms have ab: "a \<le> b" unfolding a_def b_def by (rule zdiv_mono1) simp
  have e: "x - (x + 3) mod 7 = 7 * ((x + 3) div 7) - 3" for x :: int
    using mult_div_mod_eq [of 7 "x + 3"] by linarith
  from ab have "(a + 3) div 7 \<le> (b + 3) div 7" by (intro zdiv_mono1) simp_all
  then have "a - (a + 3) mod 7 \<le> b - (b + 3) mod 7" by (simp only: e)
  then show ?thesis by (simp add: weekMonday_def a_def b_def)
qed

lemma getLast4Weeks_eq:
  assumes "fourDigitYear (lastCompletedMonday now)"
  shows "getLast4Weeks now =
    map Format_2006_01_02
      [lastCompletedMonday now - 21 * 86400, lastCompletedMonday now - 14 * 86400,
       lastCompletedMonday now - 7 * 86400, lastCompletedMonday now]"
proof -
  have a: "(0 :: int) \<le> 4" "16 * 4 \<le> maxAlloc" by (simp_all add: maxAlloc_def)
  show ?thesis
    by (simp add: getLast4Weeks_def getLastNWeeks_eq [OF a assms] upt_4)
qed

lemma current_week_not_completed:
  assumes "\<forall>k \<in> {0, 1, 2, 3}. fourDigitYear (lastCompletedMonday now - 7 * 86400 * k)"
    and "fourDigitYear (weekMonday later)" and "now \<le> later"
  shows "distinct (getLast4Weeks now) \<and> getCurrentWeekStart later \<notin> set (getLast4Weeks now)"
proof -
  define m where "m = lastCompletedMonday now"
  define t1 where "t1 = m - 7 * 86400"
  define t2 where "t2 = m - 14 * 86400"
  define t3 where "t3 = m - 21 * 86400"
  define c where "c = weekMonday later"
  from assms(1) have f: "fourDigitYear m" "fourDigitYear t1" "fourDigitYear t2" "fourDigitYear t3"
    by (simp_all add: m_def t1_def t2_def t3_def)
  have cf: "fourDigitYear c" using assms(2) by (simp add: c_def)
  have mz: "m mod 86400 = 0" by (simp add: m_def lastCompletedMonday_def weekMonday_def)
  have z: "t1 mod 86400 = 0" "t2 mod 86400 = 0" "t3 mod 86400 = 0"
    unfolding t1_def t2_def t3_def by (rule midnight_weeks_before [OF mz])+
  have cz: "c mod 86400 = 0" by (simp add: c_def weekMonday_def)
  from weekMonday_mono [OF assms(3)] have cm: "m < c" by (simp add: c_def m_def lastCompletedMonday_def)
  have o: "t3 < t2" "t2 < t1" "t1 < m" by (simp_all add: t1_def t2_def t3_def)
  have ne: "Format_2006_01_02 t \<noteq> Format_2006_01_02 u"
    if "fourDigitYear t" "fourDigitYear u" "t mod 86400 = 0" "u mod 86400 = 0" "t < u" for t u
    using Format_inj [OF that(1-4)] that(5) by auto
  have w: "getLast4Weeks now =
      [Format_2006_01_02 t3, Format_2006_01_02 t2, Format_2006_01_02 t1, Format_2006_01_02 m]"
    using getLast4Weeks_eq [OF f(1) [unfolded m_def]] by (simp add: m_def t1_def t2_def t3_def)
  have n32: "Format_2006_01_02 t3 \<noteq> Format_2006_01_02 t2" by (rule ne [OF f(4) f(3) z(3) z(2) o(1)])
  have n31: "Format_2006_01_02 t3 \<noteq> Format_2006_01_02 t1"
    by (rule ne [OF f(4) f(2) z(3) z(1)]) (use o in linarith)
  have n30: "Format_2006_01_02 t3 \<noteq> Format_2006_01_02 m"
    by (rule ne [OF f(4) f(1) z(3) mz]) (use o in linarith)
  have n21: "Format_2006_01_02 t2 \<noteq> Format_2006_01_02 t1" by (rule ne [OF f(3) f(2) z(2) z(1) o(2)])
  have n20: "Format_2006_01_02 t2 \<noteq> Format_2006_01_02 m"
    by (rule ne [OF f(3) f(1) z(2) mz]) (use o in linarith)
  have n10: "Format_2006_01_02 t1 \<noteq> Format_2006_01_02 m" by (rule ne [OF f(2) f(1) z(1) mz o(3)])
  have c3: "Format_2006_01_02 t3 \<noteq> Format_2006_01_02 c"
    by (rule ne [OF f(4) cf z(3) cz]) (use o cm in linarith)
  have c2: "Format_2006_01_02 t2 \<noteq> Format_2006_01_02 c"
    by (rule ne [OF f(3) cf z(2) cz]) (use o cm in linarith)
  have c1: "Format_2006_01_02 t1 \<noteq> Format_2006_01_02 c"
    by (rule ne [OF f(2) cf z(1) cz]) (use o cm in linarith)
  have c0: "Format_2006_01_02 m \<noteq> Format_2006_01_02 c" by (rule ne [OF f(1) cf mz cz cm])
  have d: "distinct (getLast4Weeks now)"
    unfolding w using n32 n31 n30 n21 n20 n10 by simp
  have "Format_2006_01_02 c \<notin> set (getLast4Weeks now)"
    unfolding w using c3 c2 c1 c0 by auto
  then have "getCurrentWeekStart later \<notin> set (getLast4Weeks now)"
    by (simp add: getCurrentWeekStart_def getWeekStart_eq c_def)
  with d show ?thesis ..
qed


lemma getCurrentWeekStart_2024_03_20: "getCurrentWeekStart 1710937805 = ''2024-03-18''"
proof -
  have m: "weekMonday 1710937805 = 1710720000" by (simp add: weekMonday_def)
  have "Format_2006_01_02 1710720000 = ''2024-03-18''"
    by (subst Format_date [where y = 2024 and m = 3 and d = 18]) (simp_all add: civil_2024_03_18 dc_chars)
  then show ?thesis by (simp only: getCurrentWeekStart_def getWeekStart_eq m)
qed

lemma getLast4Weeks_2024_03_20:
  "getLast4Weeks 1710937805 = [''2024-02-19'', ''2024-02-26'', ''2024-03-04'', ''2024-03-11'']"
proof -
  have m: "lastCompletedMonday 1710937805 = 1710115200"
    by (simp add: lastCompletedMonday_def weekMonday_def)
  have f: "fourDigitYear (lastCompletedMonday 1710937805)" by (simp only: m fourDigitYear_2024_03_11)
  show ?thesis
    by (simp add: getLast4Weeks_eq [OF f] m Format_2024_03_11 Format_2024_03_04 Format_2024_02_26 Format_2024_02_19)
qed

lemma cells_10:
  "countCell 10 0 = spaces 9 @ ''-''" "countCell 10 1 = spaces 9 @ ''1''" "countCell 10 2 = spaces 9 @ ''2''"
  "countCell 10 3 = spaces 9 @ ''3''" "countCell 10 4 = spaces 9 @ ''4''" "countCell 10 5 = spaces 9 @ ''5''"
  "countCell 10 6 = spaces 9 @ ''6''" "countCell 10 7 = spaces 9 @ ''7''" "countCell 10 9 = spaces 9 @ ''9''"
  "fmtD 10 4 = spaces 9 @ ''4''" "fmtD 10 5 = spaces 9 @ ''5''" "fmtD 10 9 = spaces 9 @ ''9''"
  by (simp_all add: countCell_def fmtD_eq showInt_def showNat_1 dc_chars)

lemma labels_35:
  "fmtSleft 35 ''  Dev'' = ''  Dev'' @ spaces 30" "fmtSleft 35 ''  SRE'' = ''  SRE'' @ spaces 30"
  "fmtSleft 35 ''  Subtotal'' = ''  Subtotal'' @ spaces 25" "fmtSleft 35 ''Total'' = ''Total'' @ spaces 30"
  by (simp_all add: fmtSleft_def RuneCount_ascii ascii_def)


lemma groupJobs_Some:
  "(\<exists>deptJobs'. groupJobs metrics deptJobs = Some deptJobs') \<longleftrightarrow> (\<forall>p \<in> set metrics. snd p \<noteq> None)"
  by (induction metrics deptJobs rule: groupJobs.induct) simp_all


section \<open>Results on the week calendar\<close>

text \<open>
  C2. On a Sunday getLastCompletedWeekStart goes back seven days, to the Sunday before,
  which is the last one to have ended; on any other day it goes back \<open>weekday\<close> days,
  to the Sunday just past. Six days before that Sunday is the Monday whose text it
  returns. That Monday is the Monday of the last completed week: the week it begins has
  ended by \<open>now\<close>, and the week after it has not.
\<close>

theorem last_completed_week_start:
  "(Weekday now = 0 \<longrightarrow>
      getLastCompletedWeekStart now = Format_2006_01_02 (AddDate (AddDate now 0 0 (- 7)) 0 0 (- 6))
      \<and> Weekday (AddDate now 0 0 (- 7)) = 0
      \<and> AddDate now 0 0 (- 7) div 86400 = now div 86400 - 7)
   \<and> (Weekday now \<noteq> 0 \<longrightarrow>
      getLastCompletedWeekStart now = Format_2006_01_02 (AddDate (AddDate now 0 0 (- Weekday now)) 0 0 (- 6))
      \<and> Weekday (AddDate now 0 0 (- Weekday now)) = 0
      \<and> AddDate now 0 0 (- Weekday now) div 86400 < now div 86400
      \<and> now div 86400 - 7 < AddDate now 0 0 (- Weekday now) div 86400)
   \<and> getLastCompletedWeekStart now = Format_2006_01_02 (lastCompletedMonday now)
   \<and> Weekday (lastCompletedMonday now) = 1
   \<and> lastCompletedMonday now mod 86400 = 0
   \<and> lastCompletedMonday now + 7 * 86400 \<le> now
   \<and> now < lastCompletedMonday now + 14 * 86400"
proof -
  define d where "d = now div 86400"
  define W where "W = (d + 4) mod 7"
  have W: "0 \<le> W" "W < 7" by (simp_all add: W_def)
  have wd: "Weekday now = W" by (simp add: Weekday_def W_def d_def)
  have sun7: "Weekday (AddDate now 0 0 (- 7)) = W"
  proof -
    have "Weekday (AddDate now 0 0 (- 7)) = (d + - 7 + 4) mod 7"
      by (simp only: Weekday_def AddDate_days day_shift d_def)
    also have "d + - 7 + 4 = 7 * (- 1) + (d + 4)" by simp
    also have "(7 * (- 1) + (d + 4)) mod 7 = W" by (simp only: mod_mult_self4 W_def)
    finally show ?thesis .
  qed
  have sunW: "Weekday (AddDate now 0 0 (- W)) = 0"
  proof -
    define q where "q = (d + 4) div 7"
    have "d + 4 = 7 * q + W" by (simp add: q_def W_def)
    then have e: "d + - W + 4 = 7 * q + 0" by simp
    have "Weekday (AddDate now 0 0 (- W)) = (d + - W + 4) mod 7"
      by (simp only: Weekday_def AddDate_days day_shift d_def)
    also have "\<dots> = 0" by (simp only: e mod_mult_self4) simp
    finally show ?thesis .
  qed
  have dayW: "AddDate now 0 0 (- W) div 86400 = d - W" "AddDate now 0 0 (- 7) div 86400 = d - 7"
    by (simp_all only: AddDate_days day_shift d_def)
  have def0: "Weekday now = 0 \<Longrightarrow>
      getLastCompletedWeekStart now = Format_2006_01_02 (AddDate (AddDate now 0 0 (- 7)) 0 0 (- 6))"
    by (simp add: getLastCompletedWeekStart_def Let_def)
  have def1: "Weekday now \<noteq> 0 \<Longrightarrow>
      getLastCompletedWeekStart now = Format_2006_01_02 (AddDate (AddDate now 0 0 (- Weekday now)) 0 0 (- 6))"
    by (simp add: getLastCompletedWeekStart_def Let_def)
  show ?thesis
    using def0 def1 sun7 sunW dayW W lastCompletedMonday_props [of now] getLastCompletedWeekStart_eq [of now]
    by (simp add: wd d_def [symmetric])
qed

text \<open>
  At 12:00 on Sunday 2024-03-24 and at 12:30:05 on Wednesday 2024-03-20 the last completed
  week is the one of Monday 2024-03-11.
\<close>

theorem last_completed_week_start_witness:
  "Weekday 1711281600 = 0 \<and> getLastCompletedWeekStart 1711281600 = ''2024-03-11''
   \<and> Weekday 1710937805 \<noteq> 0 \<and> getLastCompletedWeekStart 1710937805 = ''2024-03-11''
   \<and> Weekday (AddDate 1710937805 0 0 (- Weekday 1710937805)) = 0"
proof -
  note sunday = last_completed_week_start [of 1711281600]
  note wednesday = last_completed_week_start [of 1710937805]
  have m: "lastCompletedMonday 1711281600 = 1710115200" "lastCompletedMonday 1710937805 = 1710115200"
    by (simp_all add: lastCompletedMonday_def weekMonday_def)
  have w: "Weekday 1711281600 = 0" "Weekday 1710937805 \<noteq> 0" by (simp_all add: Weekday_def)
  have a: "getLastCompletedWeekStart 1711281600 = ''2024-03-11''"
    using sunday [THEN conjunct2, THEN conjunct2, THEN conjunct1] by (simp only: m Format_2024_03_11)
  have b: "getLastCompletedWeekStart 1710937805 = ''2024-03-11''"
    using wednesday [THEN conjunct2, THEN conjunct2, THEN conjunct1] by (simp only: m Format_2024_03_11)
  have c: "Weekday (AddDate 1710937805 0 0 (- Weekday 1710937805)) = 0"
    using wednesday [THEN conjunct2, THEN conjunct1, THEN mp, OF w(2), THEN conjunct2, THEN conjunct1] .
  from w a b c show ?thesis by (intro conjI)
qed

text \<open>
  C8. getWeekStart gives the same key for every instant of the week of \<open>t\<close>, from its
  Monday 00:00:00 UTC up to, and without, the next Monday; so also for that Monday
  itself, the instant the key names. The key is the text of that Monday, and reads back
  as it when its year has four digits.
\<close>

theorem week_start_idempotent:
  assumes "weekMonday t \<le> u" "u < weekMonday t + 7 * 86400"
  shows "getWeekStart u = getWeekStart t
    \<and> getWeekStart (weekMonday t) = getWeekStart t
    \<and> getWeekStart t = Format_2006_01_02 (weekMonday t)
    \<and> (fourDigitYear (weekMonday t) \<longrightarrow> Parse_2006_01_02 (getWeekStart t) = Some (weekMonday t))"
proof -
  have u: "weekMonday u = weekMonday t"
    using weekMonday_unique [OF Weekday_weekMonday weekMonday_bounds(3) assms] .
  have m: "weekMonday (weekMonday t) = weekMonday t"
    using weekMonday_unique [OF Weekday_weekMonday weekMonday_bounds(3), of t "weekMonday t"] by simp
  have p: "Parse_2006_01_02 (Format_2006_01_02 (weekMonday t)) = Some (weekMonday t)"
    if "fourDigitYear (weekMonday t)"
    using parseOrZero_Format [OF that weekMonday_bounds(3)] Parse_Format [OF that]
    by (simp add: parseOrZero_def)
  show ?thesis by (simp add: getWeekStart_eq u m p)
qed

text \<open>
  The week of Wednesday 2024-03-20 12:30:05 begins on Monday 2024-03-18 at 00:00:00; its
  last second, Sunday 23:59:59, and its first have the key of the Wednesday.
\<close>

theorem week_start_idempotent_witness:
  "weekMonday 1710937805 \<le> 1711324799 \<and> 1711324799 < weekMonday 1710937805 + 7 * 86400
   \<and> getWeekStart 1711324799 = getWeekStart 1710937805
   \<and> getWeekStart 1710720000 = getWeekStart 1710937805
   \<and> weekMonday 1710937805 = 1710720000"
  using week_start_idempotent [of 1710937805 1711324799]
  by (simp add: weekMonday_def)

text \<open>
  The week of a timestamp and its Sunday, for a week that begins in a year from 0000 to
  9999: getWeekStart, which counts Sunday as day 7 and goes back \<open>weekday - 1\<close> days,
  returns the text of a Monday; that Monday is not after the timestamp; weekStartToEnd of
  the key is the text of the day six days later, the Sunday, and the day of the
  timestamp is not after that Sunday. That the key is the text of a Monday on or before
  the timestamp holds in every year.
\<close>

theorem weekStartToEnd_four_digit_years:
  assumes "fourDigitYear (weekMonday t)"
  shows "Parse_2006_01_02 (getWeekStart t) = Some (weekMonday t)
    \<and> Weekday (weekMonday t) = 1
    \<and> getWeekStart t = Format_2006_01_02 (AddDate t 0 0 (- ((if Weekday t = 0 then 7 else Weekday t) - 1)))
    \<and> weekStartToEnd (getWeekStart t) = Format_2006_01_02 (weekMonday t + 6 * 86400)
    \<and> weekMonday t \<le> t
    \<and> t div 86400 \<le> (weekMonday t + 6 * 86400) div 86400"
proof -
  note b = weekMonday_bounds [of t]
  have z: "parseOrZero (Format_2006_01_02 (weekMonday t)) = weekMonday t"
    by (rule parseOrZero_Format [OF assms b(3)])
  then have p: "Parse_2006_01_02 (Format_2006_01_02 (weekMonday t)) = Some (weekMonday t)"
    using Parse_Format [OF assms] by (simp add: parseOrZero_def)
  have e: "weekStartToEnd (Format_2006_01_02 (weekMonday t)) = Format_2006_01_02 (weekMonday t + 6 * 86400)"
    by (simp add: weekStartToEnd_def Let_def z AddDate_days)
  have "t < (weekMonday t + 6 * 86400) + 86400" using b(2) by simp
  moreover have "(weekMonday t + 6 * 86400) mod 86400 = 0" by (simp add: weekMonday_def)
  ultimately have s: "t div 86400 \<le> (weekMonday t + 6 * 86400) div 86400"
  proof -
    define a where "a = (weekMonday t + 6 * 86400) div 86400"
    assume lt: "t < (weekMonday t + 6 * 86400) + 86400" and m0: "(weekMonday t + 6 * 86400) mod 86400 = 0"
    have "a * 86400 + (weekMonday t + 6 * 86400) mod 86400 = weekMonday t + 6 * 86400" by (simp add: a_def)
    with m0 lt have "t < (a + 1) * 86400" by (simp add: algebra_simps)
    then have "t div 86400 < a + 1" by (simp add: div_less_iff_less_mult)
    then show ?thesis by (simp add: a_def)
  qed
  have d: "getWeekStart t = Format_2006_01_02 (AddDate t 0 0 (- ((if Weekday t = 0 then 7 else Weekday t) - 1)))"
    by (simp add: getWeekStart_def Let_def)
  show ?thesis
    using p e b(1) s d Weekday_weekMonday [of t] by (simp add: getWeekStart_eq)
qed

theorem weekStartToEnd_four_digit_years_witness:
  "fourDigitYear (weekMonday 1710937805)
   \<and> Parse_2006_01_02 (getWeekStart 1710937805) = Some 1710720000
   \<and> Weekday 1710720000 = 1
   \<and> 1710720000 \<le> (1710937805 :: int)"
proof -
  have m: "weekMonday 1710937805 = 1710720000" by (simp add: weekMonday_def)
  have f: "fourDigitYear (weekMonday 1710937805)"
    by (simp add: m fourDigitYear_def dateOf_def civil_2024_03_18)
  note w = weekStartToEnd_four_digit_years [OF f]
  from f w [THEN conjunct1] w [THEN conjunct2, THEN conjunct1] show ?thesis by (simp add: m)
qed

text \<open>
  C4. The timestamp 10000-01-05 00:00:00 UTC, a Wednesday, lies in the week that begins on
  Monday 10000-01-03 and ends on Sunday 10000-01-09. getWeekStart returns the key
  10000-01-03. weekStartToEnd of that key returns 0001-01-07 and not the Sunday
  10000-01-09, so the timestamp is not on or before the end of its week: the key has five
  digits for the year, \<^verbatim>\<open>time.Parse\<close> does not read it, weekStartToEnd drops the error and
  goes on from the zero time.
\<close>

theorem week_end_year_10000:
  "getWeekStart (Date 10000 1 5 0 0 0) = ''10000-01-03''
   \<and> weekStartToEnd (getWeekStart (Date 10000 1 5 0 0 0)) = ''0001-01-07''
   \<and> Format_2006_01_02 (weekMonday (Date 10000 1 5 0 0 0) + 6 * 86400) = ''10000-01-09''
   \<and> Format_2006_01_02 (Date 10000 1 5 0 0 0) \<noteq> ''0001-01-07''
   \<and> parseOrZero ''0001-01-07'' < Date 10000 1 5 0 0 0"
proof -
  have m: "weekMonday 253402646400 = 253402473600" by (simp add: weekMonday_def)
  have g: "getWeekStart 253402646400 = ''10000-01-03''"
    by (simp only: getWeekStart_eq m Format_10000_01_03)
  have e: "weekStartToEnd ''10000-01-03'' = ''0001-01-07''"
    by (simp add: weekStartToEnd_def Let_def parseOrZero_10000 AddDate_days Format_0001_01_07)
  have p: "parseOrZero ''0001-01-07'' = - 62135078400"
    unfolding parseOrZero_def Parse_2006_01_02.simps Let_def isDigit_def digit_def daysIn_def isLeap_def
      Date_def daysFromCivil_def by simp
  have f: "Format_2006_01_02 253402646400 \<noteq> ''0001-01-07''"
    by (simp add: Format_10000_01_05)
  have s: "Format_2006_01_02 (weekMonday 253402646400 + 6 * 86400) = ''10000-01-09''"
    by (simp add: m Format_10000_01_09)
  from g e p f s show ?thesis by (simp only: Date_10000_01_05) simp
qed

text \<open>
  The list of the last completed weeks, for a length from 0 to \<open>maxAlloc div 16\<close> and a
  last completed week that begins in a year from 0000 to 9999: getLastNWeeks returns \<open>n\<close>
  keys; key \<open>j\<close> is the text of the Monday \<open>7 * (n - 1 - j)\<close> days before the Monday of the
  last completed week, so the keys are seven days apart, oldest first, and the last one
  is getLastCompletedWeekStart; the Sunday of that last week has ended by \<open>now\<close>. For
  \<open>n = 0\<close> the list is empty. At any instant of Wednesday 2024-03-20 the four keys are
  2024-02-19, 2024-02-26, 2024-03-04 and 2024-03-11. In every year the list has \<open>n\<close> keys,
  seven days apart and oldest first.
\<close>

theorem getLastNWeeks_four_digit_years:
  assumes "0 \<le> n" "16 * n \<le> maxAlloc" "fourDigitYear (lastCompletedMonday now)"
  shows "getLastNWeeks n now =
      Some (map (\<lambda>j. Format_2006_01_02 (lastCompletedMonday now - 7 * 86400 * int (nat n - 1 - j))) [0..<nat n])
    \<and> int (length (the (getLastNWeeks n now))) = n
    \<and> (0 < n \<longrightarrow> last (the (getLastNWeeks n now)) = getLastCompletedWeekStart now)
    \<and> lastCompletedMonday now + 6 * 86400 + 86400 \<le> now
    \<and> (now div 86400 = 19802 \<longrightarrow>
          getLastNWeeks 4 now = Some [''2024-02-19'', ''2024-02-26'', ''2024-03-04'', ''2024-03-11''])"
proof -
  note e = getLastNWeeks_eq [OF assms]
  have len: "int (length (the (getLastNWeeks n now))) = n" using assms(1) by (simp add: e)
  have lst: "last (the (getLastNWeeks n now)) = getLastCompletedWeekStart now" if "0 < n"
  proof -
    from that have "[0..<nat n] \<noteq> []" by simp
    moreover from that have "last [0..<nat n] = nat n - 1" by (simp add: last_upt)
    ultimately show ?thesis by (simp add: e last_map getLastCompletedWeekStart_eq)
  qed
  have ex: "getLastNWeeks 4 now = Some [''2024-02-19'', ''2024-02-26'', ''2024-03-04'', ''2024-03-11'']"
    if "now div 86400 = 19802"
  proof -
    from that have m: "lastCompletedMonday now = 1710115200"
      by (simp add: lastCompletedMonday_def weekMonday_def)
    have "getLastNWeeks 4 now =
      Some (map (\<lambda>j. Format_2006_01_02 (lastCompletedMonday now - 7 * 86400 * int (nat 4 - 1 - j))) [0..<nat 4])"
      by (rule getLastNWeeks_eq) (simp_all add: m fourDigitYear_2024_03_11 maxAlloc_def)
    then show ?thesis
      by (simp add: m upt_4 Format_2024_03_11 Format_2024_03_04 Format_2024_02_26 Format_2024_02_19)
  qed
  from e len lst ex lastCompletedMonday_props(3) [of now] show ?thesis by simp
qed

theorem getLastNWeeks_four_digit_years_witness:
  "(0 :: int) \<le> 4 \<and> 16 * 4 \<le> maxAlloc \<and> fourDigitYear (lastCompletedMonday 1710937805)
   \<and> getLastNWeeks 4 1710937805 = Some [''2024-02-19'', ''2024-02-26'', ''2024-03-04'', ''2024-03-11'']
   \<and> last (the (getLastNWeeks 4 1710937805)) = getLastCompletedWeekStart 1710937805"
proof -
  have m: "lastCompletedMonday 1710937805 = 1710115200"
    by (simp add: lastCompletedMonday_def weekMonday_def)
  have f: "fourDigitYear (lastCompletedMonday 1710937805)" by (simp only: m fourDigitYear_2024_03_11)
  have d: "(1710937805 :: int) div 86400 = 19802" by simp
  have n: "(0 :: int) \<le> 4" "(0 :: int) < 4" by simp_all
  have a: "16 * 4 \<le> maxAlloc" by (simp add: maxAlloc_def)
  note w = getLastNWeeks_four_digit_years [OF n(1) a f]
  note ex = w [THEN conjunct2, THEN conjunct2, THEN conjunct2, THEN conjunct2, THEN mp, OF d]
  note lst = w [THEN conjunct2, THEN conjunct2, THEN conjunct1, THEN mp, OF n(2)]
  from n(1) a f ex lst show ?thesis by (intro conjI)
qed

text \<open>
  C3. At 10000-01-20 00:00:00 UTC, a Thursday, the last completed week begins on Monday
  10000-01-10, and getLastCompletedWeekStart returns that key. getLastNWeeks for one week
  returns the single key 0001-01-01 and not 10000-01-10, so the list does not end at the
  last completed week: the key has five digits for the year, \<^verbatim>\<open>time.Parse\<close> does not
  read it, getLastNWeeks drops the error and counts back from the zero time.
\<close>

theorem last_n_completed_weeks_year_10000:
  "getLastCompletedWeekStart (Date 10000 1 20 0 0 0) = ''10000-01-10''
   \<and> getLastNWeeks 1 (Date 10000 1 20 0 0 0) = Some [''0001-01-01'']
   \<and> last (the (getLastNWeeks 1 (Date 10000 1 20 0 0 0))) \<noteq> getLastCompletedWeekStart (Date 10000 1 20 0 0 0)"
proof -
  have m: "lastCompletedMonday 253403942400 = 253403078400"
    by (simp add: lastCompletedMonday_def weekMonday_def)
  have g: "getLastCompletedWeekStart 253403942400 = ''10000-01-10''"
    by (simp only: getLastCompletedWeekStart_eq m Format_10000_01_10)
  have "getLastNWeeks_loop 0 1 (- 62135596800) [''''] =
      map (\<lambda>j. Format_2006_01_02 (- 62135596800 - 7 * 86400 * (int (1 - 1 - j) - int 0))) [0..<1 - 0] @ drop (1 - 0) ['''']"
    by (rule getLastNWeeks_loop_eq) simp_all
  then have "getLastNWeeks_loop 0 1 (- 62135596800) [''''] = [''0001-01-01'']"
    by (simp add: Format_0001_01_01)
  then have l: "getLastNWeeks 1 253403942400 = Some [''0001-01-01'']"
    by (simp add: getLastNWeeks_def Let_def g parseOrZero_10000 maxAlloc_def)
  have d: "last (the (getLastNWeeks 1 253403942400)) \<noteq> getLastCompletedWeekStart 253403942400"
    by (simp add: l g)
  from g l d show ?thesis by (simp only: Date_10000_01_20) simp
qed

section \<open>The cells of a row\<close>

text \<open>
  C6. In a row and in a totals row, of the table with the current-week column and of the
  older one, the text written for the configured weeks is, week by week, the cell of the
  count the map holds for the week, and of zero for a week the map does not hold. The
  cell of zero is the glyph \<open>-\<close> after the padding. The cell of any other count is, after
  the padding, a text without a space that denotes the count as a decimal numeral.
\<close>

theorem zero_renders_as_placeholder:
  "stdout (printRow label currentWeek s) =
      stdout s @ fmtSleft (labelColWidth (table s)) label
        @ concat (map (\<lambda>week. countCell (weekColWidth (table s)) (case weekValues s week of None \<Rightarrow> 0 | Some c \<Rightarrow> c)) (weeks (table s)))
        @ (if currentWeek = '''' then ''''
           else countCell (weekColWidth (table s)) (case weekValues s currentWeek of None \<Rightarrow> 0 | Some c \<Rightarrow> c))
        @ fmtD (weekColWidth (table s)) (rowTotal (printRow label currentWeek s)) @ nl
   \<and> stdout (printTotalsRow label currentWeek s) =
      stdout s @ fmtSleft (labelColWidth (table s)) label
        @ concat (map (\<lambda>week. countCell (weekColWidth (table s)) (case weekValues s week of None \<Rightarrow> 0 | Some c \<Rightarrow> c)) (weeks (table s)))
        @ (if currentWeek = '''' then ''''
           else countCell (weekColWidth (table s)) (case weekValues s currentWeek of None \<Rightarrow> 0 | Some c \<Rightarrow> c))
        @ fmtD (weekColWidth (table s)) (rowTotal (printTotalsRow label currentWeek s)) @ nl
   \<and> stdout (printRow_part001 label s) =
      stdout s @ fmtSleft (labelColWidth (table s)) label
        @ concat (map (\<lambda>week. countCell (weekColWidth (table s)) (case weekValues s week of None \<Rightarrow> 0 | Some c \<Rightarrow> c)) (weeks (table s)))
        @ fmtD (weekColWidth (table s)) (rowTotal (printRow_part001 label s)) @ nl
   \<and> stdout (printTotalsRow_part001 label s) =
      stdout s @ fmtSleft (labelColWidth (table s)) label
        @ concat (map (\<lambda>week. countCell (weekColWidth (table s)) (case weekValues s week of None \<Rightarrow> 0 | Some c \<Rightarrow> c)) (weeks (table s)))
        @ fmtD (weekColWidth (table s)) (rowTotal (printTotalsRow_part001 label s)) @ nl
   \<and> countCell w 0 = spaces (w - 1) @ ''-''
   \<and> (count \<noteq> 0 \<longrightarrow>
        (\<exists>d. countCell w count = spaces (w - length d) @ d \<and> decimalValue d = Some (sint count)
           \<and> CHR '' '' \<notin> set d))"
proof -
  have l: "lookup m k = (case m k of None \<Rightarrow> 0 | Some c \<Rightarrow> c)" for m k by (simp add: lookup_def)
  have z: "countCell w 0 = spaces (w - 1) @ ''-''" by (simp add: countCell_def)
  have n: "\<exists>d. countCell w count = spaces (w - length d) @ d \<and> decimalValue d = Some (sint count) \<and> CHR '' '' \<notin> set d"
    if "count \<noteq> 0"
    using that showInt_no_space [of "sint count"]
    by (intro exI [of _ "showInt (sint count)"]) (simp add: countCell_def decimalValue_showInt)
  have rows: "stdout (printRow label currentWeek s) =
      stdout s @ fmtSleft (labelColWidth (table s)) label
        @ concat (map (\<lambda>week. countCell (weekColWidth (table s)) (lookup (weekValues s) week)) (weeks (table s)))
        @ (if currentWeek = '''' then '''' else countCell (weekColWidth (table s)) (lookup (weekValues s) currentWeek))
        @ fmtD (weekColWidth (table s)) (rowTotal (printRow label currentWeek s)) @ nl"
    "stdout (printTotalsRow label currentWeek s) =
      stdout s @ fmtSleft (labelColWidth (table s)) label
        @ concat (map (\<lambda>week. countCell (weekColWidth (table s)) (lookup (weekValues s) week)) (weeks (table s)))
        @ (if currentWeek = '''' then '''' else countCell (weekColWidth (table s)) (lookup (weekValues s) currentWeek))
        @ fmtD (weekColWidth (table s)) (rowTotal (printTotalsRow label currentWeek s)) @ nl"
    "stdout (printRow_part001 label s) =
      stdout s @ fmtSleft (labelColWidth (table s)) label
        @ concat (map (\<lambda>week. countCell (weekColWidth (table s)) (lookup (weekValues s) week)) (weeks (table s)))
        @ fmtD (weekColWidth (table s)) (rowTotal (printRow_part001 label s)) @ nl"
    "stdout (printTotalsRow_part001 label s) =
      stdout s @ fmtSleft (labelColWidth (table s)) label
        @ concat (map (\<lambda>week. countCell (weekColWidth (table s)) (lookup (weekValues s) week)) (weeks (table s)))
        @ fmtD (weekColWidth (table s)) (rowTotal (printTotalsRow_part001 label s)) @ nl"
    by (simp_all add: printRow_def printTotalsRow_def printRow_part001_def printTotalsRow_part001_def
        Let_def fold_printRow_step Print_cell printTotalsRow_step_eq)
  from rows [unfolded l] z n show ?thesis by (intro conjI impI)
qed

text \<open>
  The counts 5 and 0 of the weeks 2024-03-04 and 2024-03-11, in columns four wide and with
  no current week, are written as \<open>5\<close>, \<open>-\<close> and the total \<open>5\<close>. With the current week
  2024-03-18, whose count is 120, and no count for 2024-03-11 the row is \<open>5\<close>, \<open>-\<close>, \<open>120\<close>
  and the total \<open>5\<close>.
\<close>

theorem zero_renders_as_placeholder_witness:
  "stdout (printRow ''Job'' ''''
      \<lparr>table = newWeeklyTable 5 4 [''2024-03-04'', ''2024-03-11''], stdout = '''',
       weekValues = [''2024-03-04'' \<mapsto> 5, ''2024-03-11'' \<mapsto> 0], rowTotal = 0\<rparr>) = ''Job     5   -   5'' @ nl
   \<and> stdout (printRow ''Job'' ''2024-03-18''
      \<lparr>table = newWeeklyTable 5 4 [''2024-03-04'', ''2024-03-11''], stdout = '''',
       weekValues = [''2024-03-04'' \<mapsto> 5, ''2024-03-18'' \<mapsto> 120], rowTotal = 0\<rparr>) = ''Job     5   - 120   5'' @ nl
   \<and> (5 :: int64) \<noteq> 0
   \<and> (\<exists>d. countCell 4 (5 :: int64) = spaces (4 - length d) @ d \<and> decimalValue d = Some 5 \<and> CHR '' '' \<notin> set d)"
proof -
  let ?s = "\<lparr>table = newWeeklyTable 5 4 [''2024-03-04'', ''2024-03-11''], stdout = '''',
       weekValues = [''2024-03-04'' \<mapsto> 5, ''2024-03-11'' \<mapsto> 0], rowTotal = 0\<rparr>"
  let ?t = "\<lparr>table = newWeeklyTable 5 4 [''2024-03-04'', ''2024-03-11''], stdout = '''',
       weekValues = [''2024-03-04'' \<mapsto> 5, ''2024-03-18'' \<mapsto> 120], rowTotal = 0\<rparr>"
  have c: "countCell 4 5 = ''   5''" "countCell 4 0 = ''   -''" "countCell 4 120 = '' 120''"
    by (simp_all add: countCell_def showInt_def showNat_1 showNat_3 dc_chars spaces_def replicate_3)
  have r: "rowTotal (printRow ''Job'' '''' ?s) = 5" "rowTotal (printRow ''Job'' ''2024-03-18'' ?t) = 5"
    by (simp_all add: printRow_def Let_def fold_printRow_step Print_cell newWeeklyTable_def lookup_def)
  have f: "fmtD 4 5 = ''   5''" by (simp add: fmtD_eq showInt_def showNat_1 dc_chars spaces_def replicate_3)
  have l: "fmtSleft 5 ''Job'' = ''Job  ''" by (simp add: fmtSleft_def RuneCount_ascii ascii_def spaces_def replicate_2)
  note w = zero_renders_as_placeholder [of "''Job''" "''''" ?s 4 5]
  note v = zero_renders_as_placeholder [of "''Job''" "''2024-03-18''" ?t 4 5]
  have a: "stdout (printRow ''Job'' '''' ?s) = ''Job     5   -   5'' @ nl"
    using w [THEN conjunct1] by (simp add: r [unfolded newWeeklyTable_def] c f l newWeeklyTable_def)
  have b: "stdout (printRow ''Job'' ''2024-03-18'' ?t) = ''Job     5   - 120   5'' @ nl"
    using v [THEN conjunct1] by (simp add: r [unfolded newWeeklyTable_def] c f l newWeeklyTable_def)
  have n: "(5 :: int64) \<noteq> 0" by simp
  have e: "\<exists>d. countCell 4 (5 :: int64) = spaces (4 - length d) @ d \<and> decimalValue d = Some 5 \<and> CHR '' '' \<notin> set d"
    using w [THEN conjunct2, THEN conjunct2, THEN conjunct2, THEN conjunct2, THEN conjunct2, THEN mp, OF n] by simp
  from a b n e show ?thesis by (intro conjI)
qed


section \<open>What the table methods leave alone\<close>

text \<open>
  C10. Each method of the weekly table, in both copies of the file, returns the table it
  was given: the two widths and the week keys are as before. printRow and printTotalsRow
  return the map they were handed as it was. The only things a method changes are
  standard output, to which it appends, and its local total, which printRow and
  printRowWithSlice return; the table has no field that could hold a total.
\<close>

theorem table_methods_leave_table_unchanged:
  "table (printHeader labelTitle currentWeek w) = table w
   \<and> table (printHeader_part001 labelTitle w) = table w
   \<and> table (printSeparator currentWeek w) = table w
   \<and> table (printSeparator_part001 w) = table w
   \<and> table (printRow label currentWeek s) = table s
   \<and> weekValues (printRow label currentWeek s) = weekValues s
   \<and> table (printRow_part001 label s) = table s
   \<and> weekValues (printRow_part001 label s) = weekValues s
   \<and> table (printRowWithSlice label counts currentCount s) = table s
   \<and> table (printRowWithSlice_part001 label counts s) = table s
   \<and> table (printTotalsRow label currentWeek s) = table s
   \<and> weekValues (printTotalsRow label currentWeek s) = weekValues s
   \<and> table (printTotalsRow_part001 label s) = table s
   \<and> weekValues (printTotalsRow_part001 label s) = weekValues s
   \<and> take (length (stdout s)) (stdout (printRow label currentWeek s)) = stdout s
   \<and> rowTotal (printRow label currentWeek s) = sum_list (map (lookup (weekValues s)) (weeks (table s)))
   \<and> rowTotal (printRowWithSlice label counts currentCount s) = sum_list counts"
  by (simp add: printHeader_def printHeader_part001_def printSeparator_def printSeparator_part001_def
      printRow_def printRowWithSlice_def printTotalsRow_def printRow_part001_def
      printRowWithSlice_part001_def printTotalsRow_part001_def
      Let_def fold_printRow_step fold_printRowWithSlice_step fold_printHeader_step Print_cell
      printTotalsRow_step_eq)
section \<open>Results on the histogram\<close>

text \<open>
  C7. The weekly totals exist when no pointer of the metrics map is nil. If then each of
  the 26 weeks has the total zero, or no total, printHistogram writes the line
  \<open>No applications in the last 6 months\<close> and nothing else: no chart, axis, month labels,
  breakdown, total or average. If a week has a total above zero, the output begins with
  the title of the chart instead. In both cases printHistogram returns its output: the
  message is not a failure.
\<close>

theorem histogram_no_data:
  assumes "aggregateWeeks metrics = Some weekTotals"
  shows "((\<forall>week \<in> set (getLast26Weeks now). weekTotals week = None \<or> weekTotals week = Some 0)
            \<longrightarrow> printHistogram now metrics = Some (''No applications in the last 6 months'' @ nl))
    \<and> ((\<exists>week \<in> set (getLast26Weeks now). \<exists>c. weekTotals week = Some c \<and> 0 <s c)
            \<longrightarrow> (\<exists>rest. printHistogram now metrics = Some (''Applicants per Week (Last 6 Months)'' @ nl @ rest)))
    \<and> (\<exists>out. printHistogram now metrics = Some out)"
proof (intro conjI impI)
  note e = printHistogram_eq [OF assms, of now]
  show "\<exists>out. printHistogram now metrics = Some out" by (simp add: e Let_def)
  {
    assume z: "\<forall>week \<in> set (getLast26Weeks now). weekTotals week = None \<or> weekTotals week = Some 0"
    have "\<forall>c \<in> set (map (lookup weekTotals) (getLast26Weeks now)). c \<le>s 0"
    proof
      fix c assume "c \<in> set (map (lookup weekTotals) (getLast26Weeks now))"
      then obtain week where w: "week \<in> set (getLast26Weeks now)" "c = lookup weekTotals week" by auto
      from z w(1) have "lookup weekTotals week = 0" by (auto simp add: lookup_def)
      with w(2) show "c \<le>s 0" by (simp add: word_sle_eq)
    qed
    then have "maxOver (map (lookup weekTotals) (getLast26Weeks now)) 0 = 0" by (rule maxOver_zero)
    then show "printHistogram now metrics = Some (''No applications in the last 6 months'' @ nl)"
      by (simp add: e Let_def)
  }
  {
    assume "\<exists>week \<in> set (getLast26Weeks now). \<exists>c. weekTotals week = Some c \<and> 0 <s c"
    then obtain week c where w: "week \<in> set (getLast26Weeks now)" "weekTotals week = Some c" "0 <s c" by blast
    then have "c \<in> set (map (lookup weekTotals) (getLast26Weeks now))" by (force simp add: lookup_def)
    from maxOver_upper [OF this, of 0] w(3) have "maxOver (map (lookup weekTotals) (getLast26Weeks now)) 0 \<noteq> 0"
      by (auto simp add: word_sle_eq word_sless_alt)
    then show "\<exists>rest. printHistogram now metrics = Some (''Applicants per Week (Last 6 Months)'' @ nl @ rest)"
      by (simp add: e Let_def histogramHead_def)
  }
qed

text \<open>
  On Wednesday 2024-03-20 a job whose only count is 0, for the week of 2024-03-11, gives
  the message alone; with the count 3 for that week, the last completed one, the chart
  is drawn.
\<close>

theorem histogram_no_data_witness:
  "aggregateWeeks [(''job1'', Some \<lparr>Department = ''Eng'', Title = ''SWE'', WeekCounts = [(''2024-03-11'', 0)]\<rparr>)]
      = Some [''2024-03-11'' \<mapsto> 0]
   \<and> printHistogram 1710937805
        [(''job1'', Some \<lparr>Department = ''Eng'', Title = ''SWE'', WeekCounts = [(''2024-03-11'', 0)]\<rparr>)]
      = Some (''No applications in the last 6 months'' @ nl)
   \<and> aggregateWeeks [(''job1'', Some \<lparr>Department = ''Eng'', Title = ''SWE'', WeekCounts = [(''2024-03-11'', 3)]\<rparr>)]
      = Some [''2024-03-11'' \<mapsto> 3]
   \<and> (\<exists>rest. printHistogram 1710937805
        [(''job1'', Some \<lparr>Department = ''Eng'', Title = ''SWE'', WeekCounts = [(''2024-03-11'', 3)]\<rparr>)]
      = Some (''Applicants per Week (Last 6 Months)'' @ nl @ rest))"
proof -
  let ?m0 = "[(''job1'', Some \<lparr>Department = ''Eng'', Title = ''SWE'', WeekCounts = [(''2024-03-11'', 0)]\<rparr>)]"
  let ?m3 = "[(''job1'', Some \<lparr>Department = ''Eng'', Title = ''SWE'', WeekCounts = [(''2024-03-11'', 3)]\<rparr>)]"
  have a0: "aggregateWeeks ?m0 = Some [''2024-03-11'' \<mapsto> 0]"
    by (simp add: aggregateWeeks_def addCount_def lookup_def)
  have a3: "aggregateWeeks ?m3 = Some [''2024-03-11'' \<mapsto> 3]"
    by (simp add: aggregateWeeks_def addCount_def lookup_def)
  have z: "\<forall>week \<in> set (getLast26Weeks 1710937805).
      [''2024-03-11'' \<mapsto> 0 :: int64] week = None \<or> [''2024-03-11'' \<mapsto> 0 :: int64] week = Some 0"
    by simp
  have m: "lastCompletedMonday 1710937805 = 1710115200"
    by (simp add: lastCompletedMonday_def weekMonday_def)
  have f: "fourDigitYear (lastCompletedMonday 1710937805)" by (simp only: m fourDigitYear_2024_03_11)
  have "getLastCompletedWeekStart 1710937805 \<in> set (getLast26Weeks 1710937805)"
    by (rule last_week_mem [OF f])
  then have k: "''2024-03-11'' \<in> set (getLast26Weeks 1710937805)"
    by (simp only: getLastCompletedWeekStart_eq m Format_2024_03_11)
  have p: "\<exists>week \<in> set (getLast26Weeks 1710937805). \<exists>c. [''2024-03-11'' \<mapsto> 3 :: int64] week = Some c \<and> 0 <s c"
    using k by (intro bexI [of _ "''2024-03-11''"] exI [of _ 3]) (simp_all add: word_sless_alt)
  note w0 = histogram_no_data [OF a0, of 1710937805]
  note w3 = histogram_no_data [OF a3, of 1710937805]
  from a0 w0 [THEN conjunct1, THEN mp, OF z] a3 w3 [THEN conjunct2, THEN conjunct1, THEN mp, OF p]
  show ?thesis by (intro conjI)
qed

text \<open>
  C9, as amended. After its heading the breakdown has one line for each of the 26
  weeks, then the total and the average. The line of a week with a count above zero ends
  with a bar of \<open>int(count / max * 30) + 1\<close> characters, computed in float64 with the
  fraction dropped, where \<open>max\<close> is the largest weekly count: at least one character, at
  most 31 while \<open>max\<close> is below \<open>2 ^ 53\<close>, and 31 for a week whose count is \<open>max\<close>; there is
  such a week. The line of a week whose count is not above zero has no bar.
\<close>

theorem breakdown_bar_length:
  assumes "aggregateWeeks metrics = Some weekTotals"
    and "collectCounts weekTotals (getLast26Weeks now) = (counts, maxCount)"
    and "maxCount \<noteq> 0"
  shows "printHistogram now metrics =
      Some (histogramHead (getLast26Weeks now) counts maxCount
            @ concat (map (\<lambda>week. breakdownText maxCount week (case weekTotals week of None \<Rightarrow> 0 | Some c \<Rightarrow> c))
                        (getLast26Weeks now))
            @ nl @ ''  Total: '' @ showInt (sint (sum_list counts)) @ '' applicants over 26 weeks'' @ nl
            @ ''  Average: '' @ fmtF1 (fdiv (float64 (sum_list counts)) 26) @ '' applicants/week'' @ nl)
    \<and> (0 <s count \<longrightarrow>
          breakdownText maxCount week count =
            ''  '' @ formatWeekEnd week @ ''  '' @ fmtD 3 count @ '' ''
              @ concat (replicate (nat (barLength count maxCount)) smallSquare) @ nl
          \<and> barLength count maxCount = \<lfloor>fmul (fdiv (float64 count) (float64 maxCount)) 30\<rfloor> + 1
          \<and> 1 \<le> barLength count maxCount
          \<and> (count \<le>s maxCount \<and> sint maxCount < 2 ^ 53 \<longrightarrow> barLength count maxCount \<le> 31))
    \<and> (\<not> 0 <s count \<longrightarrow>
          breakdownText maxCount week count = ''  '' @ formatWeekEnd week @ ''  '' @ fmtD 3 count @ nl)
    \<and> barLength maxCount maxCount = 31
    \<and> 0 <s maxCount
    \<and> (\<exists>week \<in> set (getLast26Weeks now). weekTotals week = Some maxCount)
    \<and> (\<forall>week \<in> set (getLast26Weeks now). (case weekTotals week of None \<Rightarrow> 0 | Some c \<Rightarrow> c) \<le>s maxCount)"
proof -
  define ws where "ws = getLast26Weeks now"
  from assms(2) have c: "counts = map (lookup weekTotals) ws" "maxCount = maxOver (map (lookup weekTotals) ws) 0"
    by (auto simp add: collectCounts_eq ws_def)
  from assms(3) have pos: "0 <s maxCount" unfolding c(2) by (rule maxOver_pos)
  have p: "printHistogram now metrics =
      Some (histogramHead ws counts maxCount
            @ concat (map (\<lambda>week. breakdownText maxCount week (lookup weekTotals week)) ws)
            @ nl @ ''  Total: '' @ showInt (sint (sum_list counts)) @ '' applicants over 26 weeks'' @ nl
            @ ''  Average: '' @ fmtF1 (fdiv (float64 (sum_list counts)) 26) @ '' applicants/week'' @ nl)"
  proof -
    have c2: "maxOver counts 0 = maxCount" "map (lookup weekTotals) ws = counts" by (simp_all add: c)
    from assms(3) show ?thesis
      by (simp add: printHistogram_eq [OF assms(1)] Let_def ws_def [symmetric] c2)
  qed
  have bar: "breakdownText maxCount week count =
            ''  '' @ formatWeekEnd week @ ''  '' @ fmtD 3 count @ '' ''
              @ concat (replicate (nat (barLength count maxCount)) smallSquare) @ nl
          \<and> barLength count maxCount = \<lfloor>fmul (fdiv (float64 count) (float64 maxCount)) 30\<rfloor> + 1
          \<and> 1 \<le> barLength count maxCount
          \<and> (count \<le>s maxCount \<and> sint maxCount < 2 ^ 53 \<longrightarrow> barLength count maxCount \<le> 31)"
    if t: "0 <s count"
  proof -
    from float64_pos [OF t] float64_pos [OF pos]
    have "0 \<le> float64 count / float64 maxCount" by simp
    then have "0 \<le> fdiv (float64 count) (float64 maxCount)" unfolding fdiv_def by (rule fl64_nonneg)
    then have "0 \<le> fdiv (float64 count) (float64 maxCount) * 30" by simp
    then have "0 \<le> fmul (fdiv (float64 count) (float64 maxCount)) 30" unfolding fmul_def by (rule fl64_nonneg)
    then have f: "barLength count maxCount = \<lfloor>fmul (fdiv (float64 count) (float64 maxCount)) 30\<rfloor> + 1"
      by (simp add: barLength_def intOfFloat_def)
    have u: "barLength count maxCount \<le> 31" if "count \<le>s maxCount \<and> sint maxCount < 2 ^ 53"
      using that barLength_le_31 [OF t] by blast
    from t f u barLength_ge_1 [OF t pos] show ?thesis
      by (simp add: breakdownText_def Repeat_def)
  qed
  have nobar: "breakdownText maxCount week count = ''  '' @ formatWeekEnd week @ ''  '' @ fmtD 3 count @ nl"
    if "\<not> 0 <s count"
    using that by (simp add: breakdownText_def)
  from maxOver_mem [of "map (lookup weekTotals) ws" 0] assms(3)
  have "maxCount \<in> set (map (lookup weekTotals) ws)" by (simp add: c(2))
  then obtain week where w: "week \<in> set ws" "lookup weekTotals week = maxCount" by auto
  with assms(3) have "weekTotals week = Some maxCount" by (cases "weekTotals week") (simp_all add: lookup_def)
  with w(1) have att: "\<exists>week \<in> set ws. weekTotals week = Some maxCount" by blast
  have up: "\<forall>week \<in> set ws. lookup weekTotals week \<le>s maxCount"
  proof
    fix week assume "week \<in> set ws"
    then have "lookup weekTotals week \<in> set (map (lookup weekTotals) ws)" by simp
    then show "lookup weekTotals week \<le>s maxCount" unfolding c(2) by (rule maxOver_upper)
  qed
  from p [unfolded lookup_cases] bar nobar barLength_max [OF pos] pos att up [unfolded lookup_cases]
  show ?thesis unfolding ws_def by (intro conjI impI) blast+
qed

text \<open>
  On Wednesday 2024-03-20 a job with the count 3 for the week of 2024-03-11 has the
  maximum 3, and the line of that week has a bar of 31 characters.
\<close>

theorem breakdown_bar_length_witness:
  "aggregateWeeks [(''job1'', Some \<lparr>Department = ''Eng'', Title = ''SWE'', WeekCounts = [(''2024-03-11'', 3)]\<rparr>)]
      = Some [''2024-03-11'' \<mapsto> 3]
   \<and> snd (collectCounts [''2024-03-11'' \<mapsto> 3] (getLast26Weeks 1710937805)) = 3
   \<and> (0 :: int64) <s 3
   \<and> breakdownText 3 ''2024-03-11'' 3 =
        ''  '' @ formatWeekEnd ''2024-03-11'' @ ''  '' @ fmtD 3 3 @ '' '' @ concat (replicate 31 smallSquare) @ nl
   \<and> barLength 3 3 = 31"
proof -
  let ?m3 = "[(''job1'', Some \<lparr>Department = ''Eng'', Title = ''SWE'', WeekCounts = [(''2024-03-11'', 3)]\<rparr>)]"
  let ?wt = "[''2024-03-11'' \<mapsto> 3 :: int64]"
  let ?ws = "getLast26Weeks 1710937805"
  have a3: "aggregateWeeks ?m3 = Some ?wt"
    by (simp add: aggregateWeeks_def addCount_def lookup_def)
  have m: "lastCompletedMonday 1710937805 = 1710115200"
    by (simp add: lastCompletedMonday_def weekMonday_def)
  have f: "fourDigitYear (lastCompletedMonday 1710937805)" by (simp only: m fourDigitYear_2024_03_11)
  have "getLastCompletedWeekStart 1710937805 \<in> set ?ws" by (rule last_week_mem [OF f])
  then have k: "''2024-03-11'' \<in> set ?ws" by (simp only: getLastCompletedWeekStart_eq m Format_2024_03_11)
  then have "lookup ?wt ''2024-03-11'' \<in> set (map (lookup ?wt) ?ws)" by (rule imageI [THEN set_map [THEN equalityD2, THEN subsetD]])
  then have "(3 :: int64) \<in> set (map (lookup ?wt) ?ws)" by (simp add: lookup_def)
  from maxOver_upper [OF this, of 0] have ge: "3 \<le> sint (maxOver (map (lookup ?wt) ?ws) 0)"
    by (simp add: word_sle_eq)
  then have nz: "maxOver (map (lookup ?wt) ?ws) 0 \<noteq> 0" by auto
  have "\<forall>c \<in> set (map (lookup ?wt) ?ws). c = 0 \<or> c = 3" by (auto simp add: lookup_def)
  with maxOver_mem [of "map (lookup ?wt) ?ws" 0] nz have mx: "maxOver (map (lookup ?wt) ?ws) 0 = 3" by blast
  have c: "collectCounts ?wt ?ws = (map (lookup ?wt) ?ws, 3)" by (simp only: collectCounts_eq mx)
  have n3: "(3 :: int64) \<noteq> 0" by simp
  have p3: "(0 :: int64) <s 3" by (simp add: word_sless_alt)
  note w = breakdown_bar_length [OF a3 c n3, of 3 "''2024-03-11''"]
  note b = w [THEN conjunct2, THEN conjunct1, THEN mp, OF p3]
  have l: "barLength 3 3 = 31" by (rule w [THEN conjunct2, THEN conjunct2, THEN conjunct2, THEN conjunct1])
  have t: "breakdownText 3 ''2024-03-11'' 3 =
        ''  '' @ formatWeekEnd ''2024-03-11'' @ ''  '' @ fmtD 3 3 @ '' '' @ concat (replicate 31 smallSquare) @ nl"
    using b [THEN conjunct1] by (simp add: l)
  have s: "snd (collectCounts ?wt ?ws) = 3" by (simp only: c snd_conv)
  from a3 s p3 t l show ?thesis by (intro conjI)
qed

text \<open>
  C9 as stated fails for a week whose count is the maximum: with the count 7 and the
  maximum 7 the claim has a bar of 7 / 7 * 30 = 30 characters, and the line written for
  the week of 2024-03-11 ends with a bar of 31.
\<close>

theorem breakdown_bar_31:
  "barLength 7 7 = 31
   \<and> claimedBarLength 7 7 = 30
   \<and> breakdownLine 7 ''2024-03-11'' 7 = Some (''  Mar 17    7 '' @ concat (replicate 31 smallSquare) @ nl)"
proof -
  have p: "(0 :: int64) <s 7" by (simp add: word_sless_alt)
  have b: "barLength 7 7 = 31" by (rule barLength_max [OF p])
  have c: "claimedBarLength 7 7 = 30" by (simp add: claimedBarLength_def)
  have l: "breakdownLine 7 ''2024-03-11'' 7 = Some (''  Mar 17    7 '' @ concat (replicate 31 smallSquare) @ nl)"
    using p by (simp add: breakdownLine_def b RepeatInt_def Repeat_def formatWeekEnd_2024_03_11 fmtD_3_7)
  from b c l show ?thesis by (intro conjI)
qed

section \<open>Results on the grouped table\<close>

text \<open>
  C5. When no pointer of the metrics map is nil, the weeks of the table are distinct and
  the key of the current week is not one of them, printTableGrouped writes, after the
  header and the rule and for each department in the order of the names, the name of the
  department, a row for each of its jobs in the order \<^verbatim>\<open>sort.Slice\<close> has left them, and the
  row \<open>Subtotal\<close>; then the rule and the row of the totals. The count of the row \<open>Subtotal\<close>
  for a week of the table is the sum of the counts the jobs of the department have for
  that week, and its count in the column of the current week is the sum of their counts
  for the current week; its total is the sum of its counts for the weeks of the table.
  The jobs of a department are the jobs of the metrics map with that department.
\<close>

theorem grouped_subtotal_is_sum_of_children:
  assumes "groupJobs metrics [] = Some deptJobs"
    and "distinct (getLast4Weeks now)"
    and "currentWeek \<notin> set (getLast4Weeks now)"
  shows "printTableGrouped now currentWeek sortSlice metrics =
     Some (stdout (printSeparator currentWeek
                    (printHeader ''Job'' currentWeek
                      \<lparr>table = newWeeklyTable 35 10 (getLast4Weeks now), stdout = ''''\<rparr>))
           @ concat (map (\<lambda>dept. deptBlock (getLast4Weeks now) currentWeek dept (sortSlice (jobsOf deptJobs dept)))
                       (sort (map fst deptJobs)))
           @ Repeat ''-'' (35 + 10 * (length (getLast4Weeks now) + (if currentWeek = '''' then 1 else 2))) @ nl
           @ rowText (getLast4Weeks now) currentWeek ''Total''
               (childrenSum (concat (map (\<lambda>dept. sortSlice (jobsOf deptJobs dept)) (sort (map fst deptJobs))))))
    \<and> deptBlock ws currentWeek dept jobs =
        nl @ dept @ nl
          @ concat (map (\<lambda>job. rowText ws currentWeek (displayTitle (newWeeklyTable 35 10 ws) (Title job))
                                  (\<lambda>week. case map_of (WeekCounts job) week of None \<Rightarrow> 0 | Some c \<Rightarrow> c)) jobs)
          @ rowText ws currentWeek ''  Subtotal''
              (\<lambda>week. sum_list (map (\<lambda>job. case map_of (WeekCounts job) week of None \<Rightarrow> 0 | Some c \<Rightarrow> c) jobs))
    \<and> rowText ws currentWeek label counts =
        fmtSleft 35 label
          @ concat (map (\<lambda>week. countCell 10 (counts week)) ws)
          @ (if currentWeek = '''' then '''' else countCell 10 (counts currentWeek))
          @ fmtD 10 (sum_list (map counts ws)) @ nl
    \<and> distinct (sort (map fst deptJobs))
    \<and> jobsOf deptJobs dept = filter (\<lambda>m. Department m = dept) (map (the \<circ> snd) metrics)"
proof -
  have c: "countOf job = (\<lambda>week. case map_of (WeekCounts job) week of None \<Rightarrow> 0 | Some c \<Rightarrow> c)" for job
    by (rule ext) (simp add: countOf_def)
  have s: "childrenSum jobs = (\<lambda>week. sum_list (map (\<lambda>job. case map_of (WeekCounts job) week of None \<Rightarrow> 0 | Some c \<Rightarrow> c) jobs))"
    by (rule ext) (simp add: childrenSum_def c)
  have b: "deptBlock ws currentWeek dept jobs =
        nl @ dept @ nl
          @ concat (map (\<lambda>job. rowText ws currentWeek (displayTitle (newWeeklyTable 35 10 ws) (Title job))
                                  (\<lambda>week. case map_of (WeekCounts job) week of None \<Rightarrow> 0 | Some c \<Rightarrow> c)) jobs)
          @ rowText ws currentWeek ''  Subtotal''
              (\<lambda>week. sum_list (map (\<lambda>job. case map_of (WeekCounts job) week of None \<Rightarrow> 0 | Some c \<Rightarrow> c) jobs))"
    unfolding deptBlock_def c s ..
  have r: "rowText ws currentWeek label counts =
        fmtSleft 35 label
          @ concat (map (\<lambda>week. countCell 10 (counts week)) ws)
          @ (if currentWeek = '''' then '''' else countCell 10 (counts currentWeek))
          @ fmtD 10 (sum_list (map counts ws)) @ nl"
    by (simp add: rowText_def)
  have e: "distinct (map fst ([] :: (string \<times> ashbyJobMetrics list) list))" by simp
  note g = groupJobs_props [OF assms(1) e]
  have d: "distinct (sort (map fst deptJobs))" using g by simp
  have j: "jobsOf deptJobs dept = filter (\<lambda>m. Department m = dept) (map (the \<circ> snd) metrics)"
    using g by (simp add: jobsOf_def)
  from printTableGrouped_eq [OF assms] b r d j show ?thesis by (intro conjI)
qed


text \<open>
  On Wednesday 2024-03-20 the current week is that of 2024-03-18 and the table has the
  weeks of 2024-02-19 to 2024-03-11. The department Eng has the jobs SRE, with the counts
  2 and 3 for the last two weeks and 1 for the current week, and Dev, with 4 for the last
  week and 5 for the current week. The row of the subtotals has 2 and 7, then 6 for the
  current week and the total 9.
\<close>

theorem grouped_subtotal_is_sum_of_children_witness:
  "groupJobs
      [(''j1'', Some \<lparr>Department = ''Eng'', Title = ''SRE'',
                      WeekCounts = [(''2024-03-04'', 2), (''2024-03-11'', 3), (''2024-03-18'', 1)]\<rparr>),
       (''j2'', Some \<lparr>Department = ''Eng'', Title = ''Dev'',
                      WeekCounts = [(''2024-03-11'', 4), (''2024-03-18'', 5)]\<rparr>)] []
     = Some [(''Eng'',
              [\<lparr>Department = ''Eng'', Title = ''SRE'',
                 WeekCounts = [(''2024-03-04'', 2), (''2024-03-11'', 3), (''2024-03-18'', 1)]\<rparr>,
               \<lparr>Department = ''Eng'', Title = ''Dev'',
                 WeekCounts = [(''2024-03-11'', 4), (''2024-03-18'', 5)]\<rparr>])]
   \<and> distinct (getLast4Weeks 1710937805)
   \<and> getCurrentWeekStart 1710937805 \<notin> set (getLast4Weeks 1710937805)
   \<and> printTableGrouped 1710937805 (getCurrentWeekStart 1710937805) (sort_key Title)
      [(''j1'', Some \<lparr>Department = ''Eng'', Title = ''SRE'',
                      WeekCounts = [(''2024-03-04'', 2), (''2024-03-11'', 3), (''2024-03-18'', 1)]\<rparr>),
       (''j2'', Some \<lparr>Department = ''Eng'', Title = ''Dev'',
                      WeekCounts = [(''2024-03-11'', 4), (''2024-03-18'', 5)]\<rparr>)]
     = Some (stdout (printSeparator ''2024-03-18''
                      (printHeader ''Job'' ''2024-03-18''
                        \<lparr>table = newWeeklyTable 35 10 [''2024-02-19'', ''2024-02-26'', ''2024-03-04'', ''2024-03-11''],
                           stdout = ''''\<rparr>))
             @ nl @ ''Eng'' @ nl
             @ ''  Dev'' @ spaces 30 @ spaces 9 @ ''-'' @ spaces 9 @ ''-'' @ spaces 9 @ ''-'' @ spaces 9 @ ''4''
                 @ spaces 9 @ ''5'' @ spaces 9 @ ''4'' @ nl
             @ ''  SRE'' @ spaces 30 @ spaces 9 @ ''-'' @ spaces 9 @ ''-'' @ spaces 9 @ ''2'' @ spaces 9 @ ''3''
                 @ spaces 9 @ ''1'' @ spaces 9 @ ''5'' @ nl
             @ ''  Subtotal'' @ spaces 25 @ spaces 9 @ ''-'' @ spaces 9 @ ''-'' @ spaces 9 @ ''2'' @ spaces 9 @ ''7''
                 @ spaces 9 @ ''6'' @ spaces 9 @ ''9'' @ nl
             @ Repeat ''-'' 95 @ nl
             @ ''Total'' @ spaces 30 @ spaces 9 @ ''-'' @ spaces 9 @ ''-'' @ spaces 9 @ ''2'' @ spaces 9 @ ''7''
                 @ spaces 9 @ ''6'' @ spaces 9 @ ''9'' @ nl)"
proof -
  let ?a = "\<lparr>Department = ''Eng'', Title = ''SRE'',
              WeekCounts = [(''2024-03-04'', 2), (''2024-03-11'', 3), (''2024-03-18'', 1 :: int64)]\<rparr>"
  let ?b = "\<lparr>Department = ''Eng'', Title = ''Dev'',
              WeekCounts = [(''2024-03-11'', 4), (''2024-03-18'', 5 :: int64)]\<rparr>"
  let ?ws = "[''2024-02-19'', ''2024-02-26'', ''2024-03-04'', ''2024-03-11'']"
  have g: "groupJobs [(''j1'', Some ?a), (''j2'', Some ?b)] [] = Some [(''Eng'', [?a, ?b])]"
    by (simp add: jobsOf_def)
  have d: "distinct (getLast4Weeks 1710937805)"
    by (simp add: getLast4Weeks_2024_03_20)
  have c: "getCurrentWeekStart 1710937805 \<notin> set (getLast4Weeks 1710937805)"
    by (simp add: getLast4Weeks_2024_03_20 getCurrentWeekStart_2024_03_20)
  have t: "''Dev'' \<le> ''SRE''" by (simp add: less_eq_char_def)
  have s: "sort_key Title [?a, ?b] = [?b, ?a]" using t by simp
  have so: "sort [''Eng''] = [''Eng'']" by simp
  have j: "jobsOf [(''Eng'', [?a, ?b])] ''Eng'' = [?a, ?b]" by (simp add: jobsOf_def)
  have k: "([''2024-03-18''] :: string list) \<noteq> []" "''2024-03-18'' \<noteq> ''''" by simp_all
  have db: "deptBlock ?ws ''2024-03-18'' ''Eng'' [?b, ?a] =
      nl @ ''Eng'' @ nl
        @ ''  Dev'' @ spaces 30 @ spaces 9 @ ''-'' @ spaces 9 @ ''-'' @ spaces 9 @ ''-'' @ spaces 9 @ ''4''
            @ spaces 9 @ ''5'' @ spaces 9 @ ''4'' @ nl
        @ ''  SRE'' @ spaces 30 @ spaces 9 @ ''-'' @ spaces 9 @ ''-'' @ spaces 9 @ ''2'' @ spaces 9 @ ''3''
            @ spaces 9 @ ''1'' @ spaces 9 @ ''5'' @ nl
        @ ''  Subtotal'' @ spaces 25 @ spaces 9 @ ''-'' @ spaces 9 @ ''-'' @ spaces 9 @ ''2'' @ spaces 9 @ ''7''
            @ spaces 9 @ ''6'' @ spaces 9 @ ''9'' @ nl"
    by (simp add: deptBlock_def rowText_def childrenSum_def countOf_def displayTitle_def newWeeklyTable_def
        cells_10 labels_35)
  have tr: "rowText ?ws ''2024-03-18'' ''Total'' (childrenSum [?b, ?a]) =
      ''Total'' @ spaces 30 @ spaces 9 @ ''-'' @ spaces 9 @ ''-'' @ spaces 9 @ ''2'' @ spaces 9 @ ''7''
          @ spaces 9 @ ''6'' @ spaces 9 @ ''9'' @ nl"
    by (simp add: rowText_def childrenSum_def countOf_def cells_10 labels_35)
  note w = grouped_subtotal_is_sum_of_children [OF g d c, of "sort_key Title", THEN conjunct1]
  have p: "printTableGrouped 1710937805 (getCurrentWeekStart 1710937805) (sort_key Title)
      [(''j1'', Some ?a), (''j2'', Some ?b)]
     = Some (stdout (printSeparator ''2024-03-18''
                      (printHeader ''Job'' ''2024-03-18'' \<lparr>table = newWeeklyTable 35 10 ?ws, stdout = ''''\<rparr>))
             @ deptBlock ?ws ''2024-03-18'' ''Eng'' [?b, ?a]
             @ Repeat ''-'' 95 @ nl
             @ rowText ?ws ''2024-03-18'' ''Total'' (childrenSum [?b, ?a]))"
    using w unfolding getLast4Weeks_2024_03_20 getCurrentWeekStart_2024_03_20
    by (simp add: so j s k del: sort_key_simps)
  have p': "printTableGrouped 1710937805 (getCurrentWeekStart 1710937805) (sort_key Title)
      [(''j1'', Some ?a), (''j2'', Some ?b)]
     = Some (stdout (printSeparator ''2024-03-18''
                      (printHeader ''Job'' ''2024-03-18'' \<lparr>table = newWeeklyTable 35 10 ?ws, stdout = ''''\<rparr>))
             @ nl @ ''Eng'' @ nl
             @ ''  Dev'' @ spaces 30 @ spaces 9 @ ''-'' @ spaces 9 @ ''-'' @ spaces 9 @ ''-'' @ spaces 9 @ ''4''
                 @ spaces 9 @ ''5'' @ spaces 9 @ ''4'' @ nl
             @ ''  SRE'' @ spaces 30 @ spaces 9 @ ''-'' @ spaces 9 @ ''-'' @ spaces 9 @ ''2'' @ spaces 9 @ ''3''
                 @ spaces 9 @ ''1'' @ spaces 9 @ ''5'' @ nl
             @ ''  Subtotal'' @ spaces 25 @ spaces 9 @ ''-'' @ spaces 9 @ ''-'' @ spaces 9 @ ''2'' @ spaces 9 @ ''7''
                 @ spaces 9 @ ''6'' @ spaces 9 @ ''9'' @ nl
             @ Repeat ''-'' 95 @ nl
             @ ''Total'' @ spaces 30 @ spaces 9 @ ''-'' @ spaces 9 @ ''-'' @ spaces 9 @ ''2'' @ spaces 9 @ ''7''
                 @ spaces 9 @ ''6'' @ spaces 9 @ ''9'' @ nl)"
    unfolding p db tr by (simp only: append_assoc)
  from g d c p' show ?thesis by (intro conjI)
qed


end
